theory Spec2Isabelle
  imports Main "HOL-Library.Sublist"
begin

section \<open>Request options\<close>

text \<open>
  A resource is a locator string. The options object of \<^verbatim>\<open>load\<close> has three optional
  fields; a field that is \<^verbatim>\<open>undefined\<close> is \<open>None\<close>, and so is an options object that
  is \<^verbatim>\<open>undefined\<close> itself. A request header is an object \<^verbatim>\<open>{name, value}\<close> whose two
  fields may be undefined as well (the scheduler tests both before it uses them).
\<close>

type_synonym url = string

record header =
  hname :: "string option"
  hvalue :: "string option"

record options =
  requestHeaders :: "header list option"
  withCredentials :: "bool option"
  batchSize :: "int option"

section \<open>String helpers\<close>

text \<open>
  Modelled from the spec: \<^verbatim>\<open>startsWith\<close>, \<^verbatim>\<open>endsWith\<close> and \<^verbatim>\<open>getRootPath\<close> of
  \<^verbatim>\<open>utils/string\<close> are imported by the sources but are not part of them (the spec
  lists the string helpers as external collaborators). \<^verbatim>\<open>startsWith(str, search)\<close> is
  false for an undefined string and otherwise compares the first \<open>length search\<close>
  characters of \<open>str\<close> with \<open>search\<close>; \<^verbatim>\<open>endsWith\<close> does the same at the end.
\<close>

definition startsWith :: "string option \<Rightarrow> string \<Rightarrow> bool" where
  "startsWith str search =
     (case str of None \<Rightarrow> False | Some s \<Rightarrow> take (length search) s = search)"

definition endsWith :: "string \<Rightarrow> string \<Rightarrow> bool" where
  "endsWith str search = (drop (length str - length search) str = search)"

section \<open>The JSON text loader: capability check\<close>

text \<open>
  \<^verbatim>\<open>JSONTextLoader.canLoadUrl\<close> (jsonTextLoader.js, lines 108-124). When the options carry
  request headers the answer is taken from them alone: \<^verbatim>\<open>Array.prototype.find\<close> returns
  the first header that satisfies \<^verbatim>\<open>isJson\<close>, or undefined. Otherwise the extension of
  the url's path decides. \<^verbatim>\<open>getUrlFromUri\<close> and \<^verbatim>\<open>getFileExtension\<close> are not part of
  the sources; their composition is the parameter \<open>ext\<close>.
\<close>

definition isJson :: "header \<Rightarrow> bool" where
  "isJson element \<longleftrightarrow>
     hname element = Some ''Accept'' \<and>
     startsWith (hvalue element) ''application/json'' \<and>
     startsWith (hvalue element) ''application/dicom+json''"

definition JSONTextLoader_canLoadUrl ::
  "(url \<Rightarrow> string) \<Rightarrow> url \<Rightarrow> options option \<Rightarrow> bool" where
  "JSONTextLoader_canLoadUrl ext u opts =
     (case opts of
        None \<Rightarrow> ext u = ''json''
      | Some opt \<Rightarrow>
          (case requestHeaders opt of
             None \<Rightarrow> ext u = ''json''
           | Some hs \<Rightarrow> find isJson hs \<noteq> None))"

section \<open>Transport and decoders\<close>

text \<open>
  The scheduler drives \<^verbatim>\<open>XMLHttpRequest\<close> objects, which belong to the platform. Of a
  request the model keeps what the scheduler sets (url, headers, credentials flag,
  response type) and the phase of its life:
  \<^item> \<open>OPENED\<close>: \<^verbatim>\<open>open\<close> was called, \<^verbatim>\<open>send\<close> was not (readyState 1);
  \<^item> \<open>SENT\<close>: \<^verbatim>\<open>send\<close> was called and the fetch is in flight (readyState 1 to 3);
  \<^item> \<open>ENDING\<close>: the fetch is over, readyState is 4, the \<^verbatim>\<open>load\<close> or \<^verbatim>\<open>error\<close> event was
    dispatched and \<^verbatim>\<open>loadend\<close> still has to be;
  \<^item> \<open>DONE\<close>: \<^verbatim>\<open>loadend\<close> was dispatched as well (readyState 4);
  \<^item> \<open>ABORTED\<close>: \<^verbatim>\<open>abort\<close> was called on the in-flight request; the platform
    dispatched \<^verbatim>\<open>abort\<close> and \<^verbatim>\<open>loadend\<close> and left readyState at 0.
\<close>

datatype urlContentType = Text | ArrayBuffer

datatype xhr_state = OPENED | SENT | ENDING | DONE | ABORTED

record xhr =
  xurl :: url
  xheaders :: "(string \<times> string) list"
  xwithCredentials :: bool
  xresponseType :: urlContentType
  xstate :: xhr_state

fun readyState :: "xhr \<Rightarrow> nat" where
  "readyState r =
     (case xstate r of OPENED \<Rightarrow> 1 | SENT \<Rightarrow> 2 | ENDING \<Rightarrow> 4 | DONE \<Rightarrow> 4 | ABORTED \<Rightarrow> 0)"

text \<open>
  \<^verbatim>\<open>send\<close> puts an opened request in flight. On a request in another state the
  platform raises \<^verbatim>\<open>InvalidStateError\<close> and changes nothing; \<^verbatim>\<open>send\<close> is the last
  statement of both places that call it, so the model leaves the request as it is.
\<close>

definition xhr_send :: "xhr \<Rightarrow> xhr" where
  "xhr_send r = (if xstate r = OPENED then r\<lparr>xstate := SENT\<rparr> else r)"

text \<open>
  A decoder (a loader of \<^verbatim>\<open>loaderList\<close>) is known to the scheduler through its capability
  check, the payload kind it wants, whether it has an \<^verbatim>\<open>onloaditem\<close> hook of its own, and
  its busy flag. \<^verbatim>\<open>loaderList\<close> is not part of the sources: it is a parameter of \<open>load\<close>.
  \<^verbatim>\<open>JSONTextLoader\<close> is the one decoder of the sources; it defines no \<^verbatim>\<open>onloaditem\<close>.
\<close>

record decoder =
  canLoadUrl :: "url \<Rightarrow> options option \<Rightarrow> bool"
  loadUrlAs :: urlContentType
  hasLoadItem :: bool
  isLoading :: bool

definition JSONTextLoader :: "(url \<Rightarrow> string) \<Rightarrow> decoder" where
  "JSONTextLoader ext =
     \<lparr>canLoadUrl = JSONTextLoader_canLoadUrl ext, loadUrlAs = Text,
      hasLoadItem = False, isLoading = False\<rparr>"

text \<open>
  The decode of item \<open>i\<close> starts when \<^verbatim>\<open>loader.load(payload, origin, i)\<close> is called
  and reports back through the hooks the scheduler assigned. \<open>Decoding b\<close> is a decode
  under way and \<open>Ended b\<close> one whose \<^verbatim>\<open>onloadend\<close> was delivered; \<open>b\<close> tells whether
  its \<^verbatim>\<open>onload\<close> (decode success) was delivered.
\<close>

datatype decode_state = Idle | Decoding bool | Ended bool

section \<open>The scheduler state\<close>

text \<open>
  The public hooks (\<^verbatim>\<open>onloadstart\<close>, \<^verbatim>\<open>onloaditem\<close>, \<^verbatim>\<open>onload\<close>, \<^verbatim>\<open>onloadend\<close>,
  \<^verbatim>\<open>onerror\<close>, \<^verbatim>\<open>onabort\<close>) do nothing by default; the model records every call of a
  hook, with the source it carries, in \<open>trace\<close>. An error event carries the error string
  when the scheduler built one. Progress events go through \<^verbatim>\<open>MultiProgressHandler\<close>,
  which is not part of the sources and touches no field of the scheduler; they are left
  out.
\<close>

datatype callback =
    OnLoadStart "url list option"
  | OnLoadItem nat
  | OnLoad "url list"
  | OnLoadEnd "url list option"
  | OnError url "string option"
  | OnAbort "url option"

datatype error = TypeError | Error string

text \<open>
  The private fields of \<^verbatim>\<open>UrlsLoader\<close>, then \<open>lastRunRequestIndex\<close> (the variable that
  the closures of \<^verbatim>\<open>#loadUrls\<close> share), then the environment: the manifest request in
  flight with the options its handlers captured, the decode of every item, and the trace.
  The model follows one batch at a time. In the source \<^verbatim>\<open>#clearStoredRequests\<close> only
  empties the array: a request of an earlier batch that is still in flight keeps its
  handlers, which would act on the fields of the new batch. The model drops such a request
  with the list, so a statement about the events after a \<^verbatim>\<open>load\<close> is made for a start
  state where nothing is pending (\<open>quiet\<close> below), where no such request exists.
\<close>

record world =
  inputData :: "url list option"
  requests :: "xhr list"
  runningLoader :: "decoder option"
  nLoad :: nat
  nLoadend :: nat
  aborting :: bool
  lastRunRequestIndex :: nat
  manifest :: "(xhr \<times> options option) option"
  decodes :: "decode_state list"
  trace :: "callback list"

definition init_world :: world where
  "init_world =
     \<lparr>inputData = None, requests = [], runningLoader = None, nLoad = 0, nLoadend = 0,
      aborting = False, lastRunRequestIndex = 0, manifest = None, decodes = [], trace = []\<rparr>"

definition emit :: "callback \<Rightarrow> world \<Rightarrow> world" where
  "emit c w = w\<lparr>trace := trace w @ [c]\<rparr>"

definition storeInputData :: "url list \<Rightarrow> world \<Rightarrow> world" where
  "storeInputData d w =
     w\<lparr>inputData := Some d, nLoad := 0, nLoadend := 0, aborting := False,
       requests := [], runningLoader := None\<rparr>"

definition storeRequest :: "xhr \<Rightarrow> world \<Rightarrow> world" where
  "storeRequest request w = w\<lparr>requests := requests w @ [request]\<rparr>"

definition storeLoader :: "decoder \<Rightarrow> world \<Rightarrow> world" where
  "storeLoader loader w = w\<lparr>runningLoader := Some loader\<rparr>"

text \<open>
  \<^verbatim>\<open>#addLoad\<close> and \<^verbatim>\<open>#addLoadend\<close> increment first and compare with the batch length
  afterwards. With \<^verbatim>\<open>#inputData\<close> still null the read of its length raises after the
  increment; nothing catches it in the event handler that called, so the state keeps the
  increment and no hook runs.
\<close>

definition addLoad :: "world \<Rightarrow> world" where
  "addLoad w =
     (let w1 = w\<lparr>nLoad := nLoad w + 1\<rparr>
      in case inputData w1 of
           None \<Rightarrow> w1
         | Some d \<Rightarrow> if nLoad w1 = length d then emit (OnLoad d) w1 else w1)"

definition addLoadItem :: "nat \<Rightarrow> world \<Rightarrow> world" where
  "addLoadItem i w = addLoad (emit (OnLoadItem i) w)"

definition addLoadend :: "world \<Rightarrow> world" where
  "addLoadend w =
     (let w1 = w\<lparr>nLoadend := nLoadend w + 1\<rparr>
      in case inputData w1 of
           None \<Rightarrow> w1
         | Some d \<Rightarrow> if nLoadend w1 = 2 * length d then emit (OnLoadEnd (Some d)) w1 else w1)"

section \<open>Handlers of a request\<close>

fun string_of_nat :: "nat \<Rightarrow> string" where
  "string_of_nat n =
     (if n < 10 then [''0123456789'' ! n]
      else string_of_nat (n div 10) @ [''0123456789'' ! (n mod 10)])"

definition statusMessage :: "string \<Rightarrow> nat \<Rightarrow> string \<Rightarrow> string" where
  "statusMessage responseURL status statusText =
     ''GET '' @ responseURL @ '' '' @ string_of_nat status @ '' ('' @ statusText @ '')''"

text \<open>
  \<^verbatim>\<open>loader.load(payload, dataElement, i)\<close> belongs to the decoder. As
  \<^verbatim>\<open>JSONTextLoader.load\<close> does, it raises the busy flag and starts the decode of item
  \<open>i\<close>; what the decoder reports afterwards arrives as events (see \<open>step\<close>).
\<close>

definition loader_load :: "nat \<Rightarrow> world \<Rightarrow> world" where
  "loader_load i w =
     w\<lparr>runningLoader := map_option (\<lambda>l. l\<lparr>isLoading := True\<rparr>) (runningLoader w),
       decodes := (decodes w)[i := Decoding False]\<rparr>"

text \<open>
  \<^verbatim>\<open>getLoadHandler\<close> (lines 299-318) is a \<^verbatim>\<open>function\<close> expression, and line 372 calls it
  as a plain function: \<^verbatim>\<open>getLoadHandler(loader, dataElement, i)\<close>. The body of a class is
  strict code, so inside that call \<^verbatim>\<open>this\<close> is undefined, and the arrow function it
  returns takes its \<^verbatim>\<open>this\<close> from there. In the branch for a bad status the first thing
  evaluated is \<^verbatim>\<open>this.onerror\<close>, which raises a \<^verbatim>\<open>TypeError\<close> before any hook runs and
  before \<^verbatim>\<open>this.#addLoadend()\<close>. The other branch only uses the captured \<^verbatim>\<open>loader\<close>.
  The first argument of the model says whether \<^verbatim>\<open>this\<close> is the scheduler; the code as
  written is \<open>getLoadHandler False\<close>.
\<close>

definition getLoadHandler ::
  "bool \<Rightarrow> url \<Rightarrow> nat \<Rightarrow> nat \<Rightarrow> string \<Rightarrow> string \<Rightarrow> world \<Rightarrow> error option \<times> world" where
  "getLoadHandler this_bound dataElement i status statusText responseURL w =
     (if status \<noteq> 200 \<and> status \<noteq> 0 then
        (if this_bound
         then (None, addLoadend
                 (emit (OnError dataElement (Some (statusMessage responseURL status statusText))) w))
         else (Some TypeError, w))
      else (None, loader_load i w))"

definition sendRequest :: "nat \<Rightarrow> world \<Rightarrow> world" where
  "sendRequest i w = w\<lparr>requests := (requests w)[i := xhr_send (requests w ! i)]\<rparr>"

text \<open>
  \<^verbatim>\<open>requestOnLoadEnd\<close> (lines 322-329). The test
  \<^verbatim>\<open>lastRunRequestIndex < this.#requests.length - 1\<close> is written with the 1 on the left,
  which is the same comparison and avoids the truncating subtraction of \<open>nat\<close>.
\<close>

definition requestOnLoadEnd :: "world \<Rightarrow> world" where
  "requestOnLoadEnd w =
     (let w1 = addLoadend w
      in if lastRunRequestIndex w1 + 1 < length (requests w1) \<and> \<not> aborting w1
         then sendRequest (lastRunRequestIndex w1 + 1)
                (w1\<lparr>lastRunRequestIndex := lastRunRequestIndex w1 + 1\<rparr>)
         else w1)"

section \<open>Loading a list of urls\<close>

text \<open>
  The request built for one element (lines 345-379): opened, with the headers of the
  options whose name and value are both defined, the credentials flag when the options
  define it, and the response type the decoder asks for.
\<close>

definition definedHeaders :: "header list \<Rightarrow> (string \<times> string) list" where
  "definedHeaders hs =
     concat (map (\<lambda>h. case (hname h, hvalue h) of
                         (Some n, Some v) \<Rightarrow> [(n, v)]
                       | _ \<Rightarrow> []) hs)"

definition newRequest :: "decoder \<Rightarrow> options option \<Rightarrow> url \<Rightarrow> xhr" where
  "newRequest loader opts dataElement =
     \<lparr>xurl = dataElement,
      xheaders = (case opts of
                    None \<Rightarrow> []
                  | Some opt \<Rightarrow> (case requestHeaders opt of
                                  None \<Rightarrow> []
                                | Some hs \<Rightarrow> definedHeaders hs)),
      xwithCredentials = (case opts of
                            None \<Rightarrow> False
                          | Some opt \<Rightarrow> (case withCredentials opt of
                                          None \<Rightarrow> False
                                        | Some b \<Rightarrow> b)),
      xresponseType = (if loadUrlAs loader = ArrayBuffer then ArrayBuffer else Text),
      xstate = OPENED\<rparr>"

text \<open>
  The loop over the elements (lines 332-383): an element the selected decoder refuses
  raises; the requests built before it stay stored.
\<close>

fun createRequests :: "decoder \<Rightarrow> options option \<Rightarrow> url list \<Rightarrow> world \<Rightarrow> error option \<times> world" where
  "createRequests loader opts [] w = (None, w)"
| "createRequests loader opts (dataElement # rest) w =
     (if \<not> canLoadUrl loader dataElement opts
      then (Some (Error (''Input url of different type: '' @ dataElement)), w)
      else createRequests loader opts rest
             (storeRequest (newRequest loader opts dataElement) w))"

text \<open>The launch of the first requests (lines 385-398).\<close>

definition launchOne :: "nat \<Rightarrow> world \<Rightarrow> world" where
  "launchOne r w =
     (if \<not> aborting w then sendRequest r (w\<lparr>lastRunRequestIndex := r\<rparr>) else w)"

definition initialBatchSize :: "options option \<Rightarrow> world \<Rightarrow> int" where
  "initialBatchSize opts w =
     (let n = int (length (requests w))
      in case opts of
           None \<Rightarrow> n
         | Some opt \<Rightarrow> (case batchSize opt of
                         None \<Rightarrow> n
                       | Some b \<Rightarrow> if n \<noteq> 0 then min b n else n))"

definition launchRequests :: "options option \<Rightarrow> world \<Rightarrow> world" where
  "launchRequests opts w = fold launchOne [0..<nat (initialBatchSize opts w)] w"

text \<open>
  \<^verbatim>\<open>#loadUrls\<close> (lines 245-399). An undefined or empty list returns at once. The decoder
  is the first of the list that accepts the first element. Besides the fields of the
  scheduler, a call starts with a fresh \<open>lastRunRequestIndex\<close> and with no decode
  started. In the source every call has a \<open>lastRunRequestIndex\<close> of its own, which the
  handlers of its requests keep; the model has one, for the batch stored last. The two
  agree when no request of an earlier call is in flight, which is the case in every
  statement below about the events after a call (they start from a \<open>quiet\<close> state).
\<close>

definition loadUrls :: "decoder list \<Rightarrow> url list option \<Rightarrow> options option \<Rightarrow> world \<Rightarrow> error option \<times> world" where
  "loadUrls loaderList data opts w =
     (case data of
        None \<Rightarrow> (None, w)
      | Some d \<Rightarrow>
          if length d = 0 then (None, w)
          else
            (let w1 = (storeInputData d w)
                        \<lparr>lastRunRequestIndex := 0, decodes := replicate (length d) Idle\<rparr>
             in case find (\<lambda>l. canLoadUrl l (d ! 0) opts) loaderList of
                  None \<Rightarrow> (Some (Error (''No loader found for url: '' @ d ! 0)), w1)
                | Some loader \<Rightarrow>
                    (case createRequests loader opts d (storeLoader loader w1) of
                       (Some e, w2) \<Rightarrow> (Some e, w2)
                     | (None, w2) \<Rightarrow> (None, launchRequests opts w2))))"

section \<open>Loading a DICOMDIR\<close>

text \<open>
  Modelled from the spec: \<^verbatim>\<open>getRootPath\<close> of \<^verbatim>\<open>utils/string\<close> is not part of the
  sources; the spec calls its result the manifest's own directory, which is the path up
  to its last slash (empty when there is none).
\<close>

definition getRootPath :: "string \<Rightarrow> string" where
  "getRootPath path = rev (tl (dropWhile (\<lambda>c. c \<noteq> CHR ''/'') (rev path)))"

text \<open>
  \<^verbatim>\<open>#loadDicomDir\<close> (lines 408-452) opens one request for the manifest, sets its
  response type to \<^verbatim>\<open>arraybuffer\<close> (line 412) and sends it; it sets no header and no
  credentials flag on it, does not store it in \<^verbatim>\<open>#requests\<close>, and returns. The model
  keeps the request with the options that its handlers captured; the url they captured
  is the url of the request. Its \<^verbatim>\<open>onload\<close> handler is \<open>dirOnLoad\<close>. The parser
  \<^verbatim>\<open>getFileListFromDicomDir\<close> is not part of the sources: its result on the response
  is an argument, \<open>None\<close> when it is undefined. \<^verbatim>\<open>list[0][0]\<close> raises when the list or
  its first group is missing, and reading the length of a missing first file list raises
  too.
\<close>

definition loadDicomDir :: "url \<Rightarrow> options option \<Rightarrow> world \<Rightarrow> world" where
  "loadDicomDir dicomDirUrl opts w =
     (let request = xhr_send
            \<lparr>xurl = dicomDirUrl, xheaders = [], xwithCredentials = False,
             xresponseType = ArrayBuffer, xstate = OPENED\<rparr>
      in w\<lparr>manifest := Some (request, opts)\<rparr>)"

definition fullUrls :: "url \<Rightarrow> url list \<Rightarrow> url list" where
  "fullUrls dicomDirUrl urls = map (\<lambda>u. getRootPath dicomDirUrl @ ''/'' @ u) urls"

definition dirOnLoad ::
  "decoder list \<Rightarrow> nat \<Rightarrow> string \<Rightarrow> string \<Rightarrow> url list list list option \<Rightarrow> world \<Rightarrow> error option \<times> world" where
  "dirOnLoad loaderList status statusText responseURL list w =
     (case manifest w of
        None \<Rightarrow> (None, w)
      | Some (request, opts) \<Rightarrow>
          (let dicomDirUrl = xurl request;
               w1 = w\<lparr>manifest := None\<rparr>
           in if status \<noteq> 200 \<and> status \<noteq> 0 then
                (None, emit (OnLoadEnd None)
                   (emit (OnError dicomDirUrl (Some (statusMessage responseURL status statusText))) w1))
              else
                (case list of
                   None \<Rightarrow> (Some TypeError, w1)
                 | Some [] \<Rightarrow> (Some TypeError, w1)
                 | Some ([] # _) \<Rightarrow> (Some TypeError, w1)
                 | Some ((urls # _) # _) \<Rightarrow>
                     loadUrls loaderList (Some (fullUrls dicomDirUrl urls)) opts w1)))"

section \<open>The public methods\<close>

text \<open>
  \<^verbatim>\<open>abort\<close> (lines 457-470). \<^verbatim>\<open>request.abort()\<close> belongs to the platform: on a request
  in flight it dispatches \<^verbatim>\<open>abort\<close> and then \<^verbatim>\<open>loadend\<close> before it returns, which run
  the handlers the scheduler assigned (the hook \<^verbatim>\<open>onabort\<close> with the element as source,
  and \<^verbatim>\<open>requestOnLoadEnd\<close>), and it leaves readyState at 0; on any other request it
  dispatches nothing. \<^verbatim>\<open>loader.abort()\<close> is \<^verbatim>\<open>JSONTextLoader.abort\<close>: it lowers the busy
  flag and calls the decoder's \<^verbatim>\<open>onabort\<close> and \<^verbatim>\<open>onloadend\<close> hooks, which the scheduler
  set to its own \<^verbatim>\<open>onabort\<close> and to \<^verbatim>\<open>#addLoadend\<close>.
\<close>

definition set_xstate :: "nat \<Rightarrow> xhr_state \<Rightarrow> world \<Rightarrow> world" where
  "set_xstate i st w = w\<lparr>requests := (requests w)[i := (requests w ! i)\<lparr>xstate := st\<rparr>]\<rparr>"

definition xhr_abort :: "nat \<Rightarrow> world \<Rightarrow> world" where
  "xhr_abort i w =
     (if xstate (requests w ! i) = SENT
      then set_xstate i ABORTED
             (requestOnLoadEnd
                (emit (OnAbort (Some (xurl (requests w ! i)))) (set_xstate i ENDING w)))
      else w)"

definition loader_abort :: "world \<Rightarrow> world" where
  "loader_abort w =
     addLoadend
       (emit (OnAbort None)
          (w\<lparr>runningLoader := map_option (\<lambda>l. l\<lparr>isLoading := False\<rparr>) (runningLoader w)\<rparr>))"

definition abortRequest :: "nat \<Rightarrow> world \<Rightarrow> world" where
  "abortRequest i w = (if readyState (requests w ! i) \<noteq> 4 then xhr_abort i w else w)"

definition abort :: "world \<Rightarrow> world" where
  "abort w =
     (let w1 = w\<lparr>aborting := True\<rparr>;
          w2 = fold abortRequest [0..<length (requests w1)] w1
      in case runningLoader w2 of
           None \<Rightarrow> w2
         | Some l \<Rightarrow> if isLoading l then loader_abort w2 else w2)"

text \<open>
  \<^verbatim>\<open>load\<close> (lines 218-232). The owner may replace the hook \<^verbatim>\<open>onloadstart\<close>; what the
  replacement does to the scheduler is the first argument: nothing (the default), or a
  call of \<^verbatim>\<open>abort\<close>. Undefined data raises at \<^verbatim>\<open>data.length\<close>, after the start event.
\<close>

datatype hook = DoNothing | CallAbort

fun run_hook :: "hook \<Rightarrow> world \<Rightarrow> world" where
  "run_hook DoNothing w = w"
| "run_hook CallAbort w = abort w"

definition isDicomDir :: "url list \<Rightarrow> bool" where
  "isDicomDir d \<longleftrightarrow>
     length d = 1 \<and> (endsWith (d ! 0) ''DICOMDIR'' \<or> endsWith (d ! 0) ''.dcmdir'')"

definition load :: "hook \<Rightarrow> decoder list \<Rightarrow> url list option \<Rightarrow> options option \<Rightarrow> world \<Rightarrow> error option \<times> world" where
  "load onloadstart loaderList data opts w =
     (let w1 = run_hook onloadstart (emit (OnLoadStart data) w)
      in case data of
           None \<Rightarrow> (Some TypeError, w1)
         | Some d \<Rightarrow>
             if isDicomDir d then (None, loadDicomDir (d ! 0) opts w1)
             else loadUrls loaderList data opts w1)"

section \<open>Events of the environment\<close>

text \<open>
  After \<^verbatim>\<open>load\<close> returns, the scheduler runs only when the platform or the decoder calls
  one of the handlers it assigned, or when the owner calls \<^verbatim>\<open>abort\<close>. An event names the
  handler and the item; \<open>step\<close> runs the handler the source assigned, after the change
  of the request or of the decode that the event stands for. An exception that leaves a
  handler is caught by nobody: the state stays as the handler left it.
  \<^item> \<open>ReqLoad i status statusText responseURL\<close>: \<^verbatim>\<open>request.onload\<close> of request \<open>i\<close>;
  \<^item> \<open>ReqError i\<close>: \<^verbatim>\<open>request.onerror\<close> (a failure of the network);
  \<^item> \<open>ReqLoadEnd i\<close>: \<^verbatim>\<open>request.onloadend\<close>;
  \<^item> \<open>LoaderLoadItem i\<close>, \<open>LoaderLoad i\<close>, \<open>LoaderError i\<close>, \<open>LoaderLoadEnd i\<close>: the
    decoder's \<^verbatim>\<open>onloaditem\<close>, \<^verbatim>\<open>onload\<close>, \<^verbatim>\<open>onerror\<close> and \<^verbatim>\<open>onloadend\<close> for item \<open>i\<close>;
  \<^item> \<open>Abort\<close>: the owner calls \<^verbatim>\<open>abort()\<close>;
  \<^item> \<open>DirLoad status statusText responseURL list\<close>, \<open>DirError\<close>, \<open>DirAbort\<close>: the
    handlers of the manifest request.
\<close>

datatype event =
    ReqLoad nat nat string string
  | ReqError nat
  | ReqLoadEnd nat
  | LoaderLoadItem nat
  | LoaderLoad nat
  | LoaderError nat
  | LoaderLoadEnd nat
  | Abort
  | DirLoad nat string string "url list list list option"
  | DirError
  | DirAbort

definition endDecode :: "nat \<Rightarrow> world \<Rightarrow> world" where
  "endDecode i w =
     w\<lparr>runningLoader := map_option (\<lambda>l. l\<lparr>isLoading := False\<rparr>) (runningLoader w),
       decodes := (decodes w)[i := (case decodes w ! i of Decoding b \<Rightarrow> Ended b | st \<Rightarrow> st)]\<rparr>"

fun step :: "decoder list \<Rightarrow> event \<Rightarrow> world \<Rightarrow> world" where
  "step ls (ReqLoad i status statusText responseURL) w =
     snd (getLoadHandler False (xurl (requests w ! i)) i status statusText responseURL
            (set_xstate i ENDING w))"
| "step ls (ReqError i) w =
     emit (OnError (xurl (requests w ! i)) None) (set_xstate i ENDING w)"
| "step ls (ReqLoadEnd i) w = requestOnLoadEnd (set_xstate i DONE w)"
| "step ls (LoaderLoadItem i) w = emit (OnLoadItem i) w"
| "step ls (LoaderLoad i) w =
     (let w1 = w\<lparr>decodes := (decodes w)[i := Decoding True]\<rparr>
      in case runningLoader w1 of
           None \<Rightarrow> w1
         | Some l \<Rightarrow> if hasLoadItem l then addLoad w1 else addLoadItem i w1)"
| "step ls (LoaderError i) w = emit (OnError (xurl (requests w ! i)) None) w"
| "step ls (LoaderLoadEnd i) w = addLoadend (endDecode i w)"
| "step ls Abort w = abort w"
| "step ls (DirLoad status statusText responseURL list) w =
     snd (dirOnLoad ls status statusText responseURL list w)"
| "step ls DirError w =
     (case manifest w of
        None \<Rightarrow> w
      | Some (request, opts) \<Rightarrow>
          emit (OnLoadEnd None) (emit (OnError (xurl request) None) (w\<lparr>manifest := None\<rparr>)))"
| "step ls DirAbort w =
     (case manifest w of
        None \<Rightarrow> w
      | Some (request, opts) \<Rightarrow>
          emit (OnLoadEnd None) (emit (OnAbort (Some (xurl request))) (w\<lparr>manifest := None\<rparr>)))"

text \<open>
  Modelled from the spec: the decoders of \<^verbatim>\<open>loaderList\<close> other than
  \<^verbatim>\<open>JSONTextLoader\<close> are not part of the sources. The spec gives the decode of an item
  the states pending, loaded and errored and lets it run only after the fetch of the item
  is done; \<^verbatim>\<open>JSONTextLoader.load\<close> calls \<^verbatim>\<open>onload\<close> at most once and \<^verbatim>\<open>onloadend\<close>
  last. The request events follow the \<^verbatim>\<open>XMLHttpRequest\<close> standard.

  What the platform and a decoder can do next. A request delivers \<^verbatim>\<open>load\<close> or \<^verbatim>\<open>error\<close>
  only while in flight and \<^verbatim>\<open>loadend\<close> right after one of them; a decoder reports on
  item \<open>i\<close> only while its decode is under way, \<^verbatim>\<open>onload\<close> at most once, and
  \<^verbatim>\<open>onloaditem\<close> only when it has that hook. The requests and decodes that can
  report are those of the batch stored last: a request that an earlier batch left in
  flight is not followed, so the events of a run are all the events there are only when
  the batch was stored in a \<open>quiet\<close> state.
\<close>

fun enabled :: "event \<Rightarrow> world \<Rightarrow> bool" where
  "enabled (ReqLoad i status statusText responseURL) w \<longleftrightarrow>
     i < length (requests w) \<and> xstate (requests w ! i) = SENT"
| "enabled (ReqError i) w \<longleftrightarrow> i < length (requests w) \<and> xstate (requests w ! i) = SENT"
| "enabled (ReqLoadEnd i) w \<longleftrightarrow> i < length (requests w) \<and> xstate (requests w ! i) = ENDING"
| "enabled (LoaderLoadItem i) w \<longleftrightarrow>
     i < length (decodes w) \<and> (decodes w ! i = Decoding False \<or> decodes w ! i = Decoding True)
     \<and> (case runningLoader w of None \<Rightarrow> False | Some l \<Rightarrow> hasLoadItem l)"
| "enabled (LoaderLoad i) w \<longleftrightarrow> i < length (decodes w) \<and> decodes w ! i = Decoding False"
| "enabled (LoaderError i) w \<longleftrightarrow>
     i < length (decodes w) \<and> (decodes w ! i = Decoding False \<or> decodes w ! i = Decoding True)"
| "enabled (LoaderLoadEnd i) w \<longleftrightarrow>
     i < length (decodes w) \<and> (decodes w ! i = Decoding False \<or> decodes w ! i = Decoding True)"
| "enabled Abort w \<longleftrightarrow> True"
| "enabled (DirLoad status statusText responseURL list) w \<longleftrightarrow> manifest w \<noteq> None"
| "enabled DirError w \<longleftrightarrow> manifest w \<noteq> None"
| "enabled DirAbort w \<longleftrightarrow> manifest w \<noteq> None"

text \<open>A run applies events one after the other; it is \<open>None\<close> when one cannot occur.\<close>

fun run :: "decoder list \<Rightarrow> event list \<Rightarrow> world \<Rightarrow> world option" where
  "run ls [] w = Some w"
| "run ls (e # es) w = (if enabled e w then run ls es (step ls e w) else None)"

section \<open>Notions used in the statements\<close>

text \<open>What \<^verbatim>\<open>abort\<close> does to one request: a request in flight ends aborted.\<close>

definition abortedRequest :: "xhr \<Rightarrow> xhr" where
  "abortedRequest r = (if xstate r = SENT then r\<lparr>xstate := ABORTED\<rparr> else r)"

text \<open>
  \<open>stays_unsent w w'\<close>: from \<open>w\<close> to \<open>w'\<close> the stored requests are the same in number,
  every request that was not sent is still not sent, and every request in flight was in
  flight before.
\<close>

definition stays_unsent :: "world \<Rightarrow> world \<Rightarrow> bool" where
  "stays_unsent w w' \<longleftrightarrow>
     length (requests w') = length (requests w) \<and>
     (\<forall>i<length (requests w).
        (xstate (requests w ! i) = OPENED \<longrightarrow> xstate (requests w' ! i) = OPENED) \<and>
        (xstate (requests w' ! i) = SENT \<longrightarrow> xstate (requests w ! i) = SENT))"

text \<open>The stored decoder reports itself as loading.\<close>

definition busy :: "world \<Rightarrow> bool" where
  "busy w = (case runningLoader w of None \<Rightarrow> False | Some l \<Rightarrow> isLoading l)"

text \<open>
  How many requests the launch loop sends for \<open>n\<close> stored requests, \<open>n\<close> not zero: all
  of them, or \<^verbatim>\<open>Math.min(options.batchSize, n)\<close> when the options give a batch size
  (none when that is not positive).
\<close>

definition effectiveBatch :: "options option \<Rightarrow> nat \<Rightarrow> nat" where
  "effectiveBatch opts n =
     (case opts of
        None \<Rightarrow> n
      | Some opt \<Rightarrow> (case batchSize opt of None \<Rightarrow> n | Some b \<Rightarrow> nat (min b (int n))))"




text \<open>The calls of the public \<^verbatim>\<open>onload\<close> hook in a trace.\<close>

fun isOnLoad :: "callback \<Rightarrow> bool" where
  "isOnLoad (OnLoad d) = True"
| "isOnLoad c = False"


text \<open>
  \<open>pre t w\<close> is \<open>w\<close> with the calls \<open>t\<close> put in front of its trace, and
  \<open>after_start n w\<close> is \<open>w\<close> with the first \<open>n + 1\<close> calls of its trace dropped: the
  calls recorded before a \<^verbatim>\<open>load\<close> and its start event.
\<close>

definition pre :: "callback list \<Rightarrow> world \<Rightarrow> world" where
  "pre t w = w\<lparr>trace := t @ trace w\<rparr>"


text \<open>
  Nothing is pending: no request is in flight or waits for its \<^verbatim>\<open>loadend\<close>, no decode
  is under way, no manifest is being fetched and the decoder is not loading.
\<close>

definition quiet :: "world \<Rightarrow> bool" where
  "quiet w \<longleftrightarrow>
     (\<forall>r\<in>set (requests w). xstate r \<noteq> SENT \<and> xstate r \<noteq> ENDING) \<and>
     (\<forall>s\<in>set (decodes w). s = Idle \<or> s = Ended False \<or> s = Ended True) \<and>
     manifest w = None \<and> \<not> busy w"

text \<open>The calls of the public \<^verbatim>\<open>onloadend\<close> hook in a trace.\<close>

fun isOnLoadEnd :: "callback \<Rightarrow> bool" where
  "isOnLoadEnd (OnLoadEnd d) = True"
| "isOnLoadEnd c = False"

text \<open>
  What holds of the load-end counter of a batch \<open>d\<close> between events, when \<open>c\<close> calls
  of \<^verbatim>\<open>onloadend\<close> were in the trace before: one more call was made exactly if the
  counter has reached twice the batch length.
\<close>

definition loadend_inv :: "nat \<Rightarrow> url list \<Rightarrow> world \<Rightarrow> bool" where
  "loadend_inv c d w \<longleftrightarrow>
     inputData w = Some d \<and> manifest w = None \<and>
     length (filter isOnLoadEnd (trace w)) = c + (if 2 * length d \<le> nLoadend w then 1 else 0)"

section \<open>Properties of the JSON capability check\<close>

lemma startsWith_prefix: "startsWith (Some s) p \<longleftrightarrow> prefix p s"
proof
  assume "startsWith (Some s) p"
  then have "take (length p) s = p" by (simp add: startsWith_def)
  then show "prefix p s" by (metis take_is_prefix)
next
  assume "prefix p s"
  then show "startsWith (Some s) p" by (auto simp: startsWith_def prefix_def)
qed

lemma no_common_json_prefix:
  "\<not> (startsWith v ''application/json'' \<and> startsWith v ''application/dicom+json'')"
proof (cases v)
  case None
  then show ?thesis by (simp add: startsWith_def)
next
  case (Some s)
  show ?thesis
  proof
    assume "startsWith v ''application/json'' \<and> startsWith v ''application/dicom+json''"
    then have "prefix ''application/json'' s" and "prefix ''application/dicom+json'' s"
      using Some by (simp_all add: startsWith_prefix)
    then have "prefix ''application/json'' ''application/dicom+json''
        \<or> prefix ''application/dicom+json'' ''application/json''"
      by (rule prefix_same_cases)
    then show False by simp
  qed
qed

lemma isJson_never: "\<not> isJson element"
  using no_common_json_prefix [of "hvalue element"] by (simp add: isJson_def)

lemma find_isJson: "find isJson hs = None"
  by (simp add: find_None_iff isJson_never)

text \<open>
  Claim C10. Whenever the options object is defined and its \<^verbatim>\<open>requestHeaders\<close> field is
  defined, \<^verbatim>\<open>JSONTextLoader.canLoadUrl\<close> answers false, for every url, every header list
  and every file extension: no header value starts with both \<^verbatim>\<open>application/json\<close> and
  \<^verbatim>\<open>application/dicom+json\<close>, so \<^verbatim>\<open>find\<close> yields undefined and the extension of the
  url is never looked at.
\<close>

theorem canLoadUrl_headers_false:
  "requestHeaders opt = Some hs \<Longrightarrow> JSONTextLoader_canLoadUrl ext u (Some opt) = False"
  by (simp add: JSONTextLoader_canLoadUrl_def find_isJson)

theorem canLoadUrl_headers_false_witness:
  "requestHeaders \<lparr>requestHeaders = Some [\<lparr>hname = Some ''Accept'', hvalue = Some ''application/json''\<rparr>],
       withCredentials = None, batchSize = None\<rparr>
     = Some [\<lparr>hname = Some ''Accept'', hvalue = Some ''application/json''\<rparr>]
   \<and> JSONTextLoader_canLoadUrl (\<lambda>u. ''json'') ''http://host/study.json''
       (Some \<lparr>requestHeaders = Some [\<lparr>hname = Some ''Accept'', hvalue = Some ''application/json''\<rparr>],
          withCredentials = None, batchSize = None\<rparr>) = False"
  using canLoadUrl_headers_false
    [of "\<lparr>requestHeaders = Some [\<lparr>hname = Some ''Accept'', hvalue = Some ''application/json''\<rparr>],
          withCredentials = None, batchSize = None\<rparr>"
        "[\<lparr>hname = Some ''Accept'', hvalue = Some ''application/json''\<rparr>]"
        "\<lambda>u. ''json''" "''http://host/study.json''"]
  by simp

section \<open>The handler of a response\<close>

lemma getLoadHandler_success:
  "status = 200 \<or> status = 0 \<Longrightarrow>
   getLoadHandler b dataElement i status statusText responseURL w = (None, loader_load i w)"
  by (auto simp: getLoadHandler_def)

text \<open>
  With \<^verbatim>\<open>this\<close> bound to the scheduler the handler would report a bad status through
  \<^verbatim>\<open>onerror\<close>, with the element as source and a message that holds the status and its
  text, and count it with \<^verbatim>\<open>#addLoadend\<close>, without calling the decoder.
\<close>

lemma getLoadHandler_bound_failure:
  "status \<noteq> 200 \<Longrightarrow> status \<noteq> 0 \<Longrightarrow>
   getLoadHandler True dataElement i status statusText responseURL w =
     (None, addLoadend (emit (OnError dataElement
        (Some (''GET '' @ responseURL @ '' '' @ string_of_nat status @ '' ('' @ statusText @ '')''))) w))"
  by (simp add: getLoadHandler_def statusMessage_def)

lemma statusMessage_404:
  "statusMessage ''http://host/a.json'' 404 ''Not Found'' = ''GET http://host/a.json 404 (Not Found)''"
  by (simp add: statusMessage_def)

text \<open>
  Claim C9, at the response \<^verbatim>\<open>404 Not Found\<close>. The handler as the source wires it raises
  a \<^verbatim>\<open>TypeError\<close> and leaves the state as it was: the \<^verbatim>\<open>load\<close> event of the request adds
  nothing to the trace (no \<^verbatim>\<open>onerror\<close>), does not count toward load-end, and starts no
  decode.
\<close>

theorem getLoadHandler_status_404:
  "getLoadHandler False ''a.json'' 0 404 ''Not Found'' ''http://host/a.json'' w = (Some TypeError, w)
   \<and> trace (step ls (ReqLoad 0 404 ''Not Found'' ''http://host/a.json'') w) = trace w
   \<and> nLoadend (step ls (ReqLoad 0 404 ''Not Found'' ''http://host/a.json'') w) = nLoadend w
   \<and> decodes (step ls (ReqLoad 0 404 ''Not Found'' ''http://host/a.json'') w) = decodes w"
  by (simp add: getLoadHandler_def set_xstate_def)

section \<open>Inputs that load refuses\<close>

text \<open>
  Claim C7 does not hold for the empty list: \<^verbatim>\<open>load([])\<close> returns without an error, with
  the start event as its only effect.
\<close>

theorem load_empty_counterexample:
  "load DoNothing [JSONTextLoader (\<lambda>u. ''json'')] (Some []) None init_world
     = (None, init_world\<lparr>trace := [OnLoadStart (Some [])]\<rparr>)"
  by (simp add: load_def loadUrls_def isDicomDir_def Let_def emit_def init_world_def)

text \<open>
  Claim C7, amended. With an empty list \<^verbatim>\<open>load\<close> returns normally right after the start
  event (and whatever the \<^verbatim>\<open>onloadstart\<close> hook did): nothing is stored, built or sent.
  With undefined data it raises a \<^verbatim>\<open>TypeError\<close> at the same point.
\<close>

theorem load_empty_or_undefined:
  "load h ls (Some []) opts w = (None, run_hook h (emit (OnLoadStart (Some [])) w))
   \<and> load h ls None opts w = (Some TypeError, run_hook h (emit (OnLoadStart None) w))"
  by (simp add: load_def loadUrls_def isDicomDir_def Let_def)

lemma createRequests_reject:
  "i < length d \<Longrightarrow> \<not> canLoadUrl loader (d ! i) opts \<Longrightarrow>
   \<forall>j<i. canLoadUrl loader (d ! j) opts \<Longrightarrow>
   createRequests loader opts d w =
     (Some (Error (''Input url of different type: '' @ d ! i)),
      w\<lparr>requests := requests w @ map (newRequest loader opts) (take i d)\<rparr>)"
proof (induction d arbitrary: i w)
  case Nil
  then show ?case by simp
next
  case (Cons x xs)
  show ?case
  proof (cases i)
    case 0
    with Cons.prems show ?thesis by simp
  next
    case (Suc k)
    with Cons.prems have k: "k < length xs" "\<not> canLoadUrl loader (xs ! k) opts"
      "\<forall>j<k. canLoadUrl loader (xs ! j) opts" and x: "canLoadUrl loader x opts"
      by auto
    show ?thesis
      using Cons.IH [OF k, of "storeRequest (newRequest loader opts x) w"] x Suc
      by (simp add: storeRequest_def)
  qed
qed

lemma createRequests_accept:
  "\<forall>x\<in>set d. canLoadUrl loader x opts \<Longrightarrow>
   createRequests loader opts d w =
     (None, w\<lparr>requests := requests w @ map (newRequest loader opts) d\<rparr>)"
  by (induction d arbitrary: w) (simp_all add: storeRequest_def)

text \<open>
  Claim C8 does not hold as stated: for the batch \<^verbatim>\<open>["a.json", "b.txt"]\<close> and the JSON
  decoder the error is raised while the request of the first element is stored but not
  sent; no fetch is in flight.
\<close>

theorem load_rejects_counterexample:
  "fst (load DoNothing [JSONTextLoader (\<lambda>u. if u = ''a.json'' then ''json'' else ''txt'')]
          (Some [''a.json'', ''b.txt'']) None init_world)
     = Some (Error ''Input url of different type: b.txt'')
   \<and> map xstate (requests (snd (load DoNothing
          [JSONTextLoader (\<lambda>u. if u = ''a.json'' then ''json'' else ''txt'')]
          (Some [''a.json'', ''b.txt'']) None init_world))) = [OPENED]"
  by (simp add: load_def loadUrls_def isDicomDir_def endsWith_def Let_def emit_def init_world_def
      JSONTextLoader_def JSONTextLoader_canLoadUrl_def storeInputData_def storeLoader_def
      storeRequest_def newRequest_def)

text \<open>
  Claim C8, amended. When the decoder selected from the first element refuses the
  element at index \<open>i\<close> and accepts the ones before it, \<^verbatim>\<open>load\<close> raises
  \<^verbatim>\<open>Input url of different type\<close> for that element. This happens in the loop that builds
  the requests, before the launch: the \<open>i\<close> requests built so far are stored and none of
  them has been sent.
\<close>

theorem load_rejects_while_building:
  assumes "find (\<lambda>l. canLoadUrl l (d ! 0) opts) ls = Some loader"
    and "i < length d" and "\<not> canLoadUrl loader (d ! i) opts"
    and "\<forall>j<i. canLoadUrl loader (d ! j) opts"
    and "\<not> isDicomDir d"
  shows "fst (load h ls (Some d) opts w) = Some (Error (''Input url of different type: '' @ d ! i))
    \<and> map xstate (requests (snd (load h ls (Some d) opts w))) = replicate i OPENED"
proof -
  from assms(2) have ne: "length d \<noteq> 0" by auto
  show ?thesis
    using assms(1,2,5) ne createRequests_reject [OF assms(2,3,4)]
    by (simp add: load_def loadUrls_def Let_def storeInputData_def storeLoader_def
        newRequest_def map_replicate_const comp_def)
qed

theorem load_rejects_while_building_witness:
  "fst (load DoNothing [JSONTextLoader (\<lambda>u. if u = ''a.json'' then ''json'' else ''txt'')]
          (Some [''a.json'', ''c.txt'']) None init_world)
     = Some (Error ''Input url of different type: c.txt'')
   \<and> map xstate (requests (snd (load DoNothing
          [JSONTextLoader (\<lambda>u. if u = ''a.json'' then ''json'' else ''txt'')]
          (Some [''a.json'', ''c.txt'']) None init_world))) = [OPENED]"
  using load_rejects_while_building
    [of "[''a.json'', ''c.txt'']" None "[JSONTextLoader (\<lambda>u. if u = ''a.json'' then ''json'' else ''txt'')]"
        "JSONTextLoader (\<lambda>u. if u = ''a.json'' then ''json'' else ''txt'')" 1 DoNothing init_world]
  by (simp add: JSONTextLoader_def JSONTextLoader_canLoadUrl_def isDicomDir_def endsWith_def)

section \<open>Fields that the operations leave alone\<close>


lemma emit_fields [simp]:
  "inputData (emit c w) = inputData w"
  "requests (emit c w) = requests w"
  "runningLoader (emit c w) = runningLoader w"
  "nLoad (emit c w) = nLoad w"
  "nLoadend (emit c w) = nLoadend w"
  "aborting (emit c w) = aborting w"
  "lastRunRequestIndex (emit c w) = lastRunRequestIndex w"
  "manifest (emit c w) = manifest w"
  "decodes (emit c w) = decodes w"
  "trace (emit c w) = trace w @ [c]"
  by (simp_all add: emit_def)

lemma addLoadend_fields [simp]:
  "inputData (addLoadend w) = inputData w"
  "requests (addLoadend w) = requests w"
  "runningLoader (addLoadend w) = runningLoader w"
  "nLoad (addLoadend w) = nLoad w"
  "nLoadend (addLoadend w) = nLoadend w + 1"
  "aborting (addLoadend w) = aborting w"
  "lastRunRequestIndex (addLoadend w) = lastRunRequestIndex w"
  "manifest (addLoadend w) = manifest w"
  "decodes (addLoadend w) = decodes w"
  by (simp_all add: addLoadend_def Let_def split: option.splits)

lemma addLoad_fields [simp]:
  "inputData (addLoad w) = inputData w"
  "requests (addLoad w) = requests w"
  "runningLoader (addLoad w) = runningLoader w"
  "nLoad (addLoad w) = nLoad w + 1"
  "nLoadend (addLoad w) = nLoadend w"
  "aborting (addLoad w) = aborting w"
  "lastRunRequestIndex (addLoad w) = lastRunRequestIndex w"
  "manifest (addLoad w) = manifest w"
  "decodes (addLoad w) = decodes w"
  by (simp_all add: addLoad_def Let_def split: option.splits)

lemma set_xstate_fields [simp]:
  "inputData (set_xstate i st w) = inputData w"
  "requests (set_xstate i st w) = (requests w)[i := (requests w ! i)\<lparr>xstate := st\<rparr>]"
  "runningLoader (set_xstate i st w) = runningLoader w"
  "nLoad (set_xstate i st w) = nLoad w"
  "nLoadend (set_xstate i st w) = nLoadend w"
  "aborting (set_xstate i st w) = aborting w"
  "lastRunRequestIndex (set_xstate i st w) = lastRunRequestIndex w"
  "manifest (set_xstate i st w) = manifest w"
  "decodes (set_xstate i st w) = decodes w"
  "trace (set_xstate i st w) = trace w"
  by (simp_all add: set_xstate_def)

lemma sendRequest_fields [simp]:
  "inputData (sendRequest i w) = inputData w"
  "requests (sendRequest i w) = (requests w)[i := xhr_send (requests w ! i)]"
  "runningLoader (sendRequest i w) = runningLoader w"
  "nLoad (sendRequest i w) = nLoad w"
  "nLoadend (sendRequest i w) = nLoadend w"
  "aborting (sendRequest i w) = aborting w"
  "lastRunRequestIndex (sendRequest i w) = lastRunRequestIndex w"
  "manifest (sendRequest i w) = manifest w"
  "decodes (sendRequest i w) = decodes w"
  "trace (sendRequest i w) = trace w"
  by (simp_all add: sendRequest_def)

lemma requestOnLoadEnd_fields [simp]:
  "inputData (requestOnLoadEnd w) = inputData w"
  "runningLoader (requestOnLoadEnd w) = runningLoader w"
  "nLoad (requestOnLoadEnd w) = nLoad w"
  "nLoadend (requestOnLoadEnd w) = nLoadend w + 1"
  "aborting (requestOnLoadEnd w) = aborting w"
  "manifest (requestOnLoadEnd w) = manifest w"
  "decodes (requestOnLoadEnd w) = decodes w"
  "trace (requestOnLoadEnd w) = trace (addLoadend w)"
  by (simp_all add: requestOnLoadEnd_def Let_def)

lemma requestOnLoadEnd_aborting: "aborting w \<Longrightarrow> requestOnLoadEnd w = addLoadend w"
  by (simp add: requestOnLoadEnd_def Let_def)

lemma xhr_abort_fields [simp]:
  "inputData (xhr_abort i w) = inputData w"
  "runningLoader (xhr_abort i w) = runningLoader w"
  "nLoad (xhr_abort i w) = nLoad w"
  "aborting (xhr_abort i w) = aborting w"
  "manifest (xhr_abort i w) = manifest w"
  "decodes (xhr_abort i w) = decodes w"
  by (simp_all add: xhr_abort_def)

lemma xhr_abort_requests:
  "aborting w \<Longrightarrow> i < length (requests w) \<Longrightarrow>
   requests (xhr_abort i w) =
     (requests w)[i := (if xstate (requests w ! i) = SENT
                        then (requests w ! i)\<lparr>xstate := ABORTED\<rparr> else requests w ! i)]"
  by (simp add: xhr_abort_def requestOnLoadEnd_aborting)

lemma abortRequest_fields [simp]:
  "inputData (abortRequest i w) = inputData w"
  "runningLoader (abortRequest i w) = runningLoader w"
  "nLoad (abortRequest i w) = nLoad w"
  "aborting (abortRequest i w) = aborting w"
  "manifest (abortRequest i w) = manifest w"
  "decodes (abortRequest i w) = decodes w"
  by (simp_all add: abortRequest_def)

lemma abortRequest_requests:
  "aborting w \<Longrightarrow> i < length (requests w) \<Longrightarrow>
   requests (abortRequest i w) = (requests w)[i := abortedRequest (requests w ! i)]"
  by (cases "xstate (requests w ! i)")
     (simp_all add: abortRequest_def xhr_abort_requests abortedRequest_def)

lemma fold_abortRequest_fields [simp]:
  "inputData (fold abortRequest is w) = inputData w"
  "runningLoader (fold abortRequest is w) = runningLoader w"
  "nLoad (fold abortRequest is w) = nLoad w"
  "aborting (fold abortRequest is w) = aborting w"
  "manifest (fold abortRequest is w) = manifest w"
  "decodes (fold abortRequest is w) = decodes w"
  by (induction "is" arbitrary: w; simp)+

lemma fold_abortRequest_requests:
  "aborting w \<Longrightarrow> n \<le> length (requests w) \<Longrightarrow>
   requests (fold abortRequest [0..<n] w) =
     map abortedRequest (take n (requests w)) @ drop n (requests w)"
proof (induction n)
  case 0
  then show ?case by simp
next
  case (Suc n)
  let ?w = "fold abortRequest [0..<n] w"
  from Suc have IH: "requests ?w = map abortedRequest (take n (requests w)) @ drop n (requests w)"
    and n: "n < length (requests w)" by simp_all
  have len: "length (requests ?w) = length (requests w)" using IH n by simp
  have ab: "aborting ?w" using Suc.prems by simp
  have "requests (abortRequest n ?w) = (requests ?w)[n := abortedRequest (requests ?w ! n)]"
    using ab n len by (simp add: abortRequest_requests)
  also have "\<dots> = map abortedRequest (take (Suc n) (requests w)) @ drop (Suc n) (requests w)"
    using n by (simp add: IH nth_append list_update_append take_Suc_conv_app_nth
        Cons_nth_drop_Suc [symmetric])
  finally show ?case by simp
qed

lemma abort_requests:
  "requests (abort w) = map abortedRequest (requests w)"
proof -
  have "requests (fold abortRequest [0..<length (requests w)] (w\<lparr>aborting := True\<rparr>))
      = map abortedRequest (requests w)"
    using fold_abortRequest_requests [of "w\<lparr>aborting := True\<rparr>" "length (requests w)"] by simp
  then show ?thesis
    by (simp add: abort_def Let_def loader_abort_def split: option.splits)
qed

lemma loader_load_fields [simp]:
  "inputData (loader_load i w) = inputData w"
  "requests (loader_load i w) = requests w"
  "runningLoader (loader_load i w) = map_option (\<lambda>l. l\<lparr>isLoading := True\<rparr>) (runningLoader w)"
  "nLoad (loader_load i w) = nLoad w"
  "nLoadend (loader_load i w) = nLoadend w"
  "aborting (loader_load i w) = aborting w"
  "lastRunRequestIndex (loader_load i w) = lastRunRequestIndex w"
  "manifest (loader_load i w) = manifest w"
  "decodes (loader_load i w) = (decodes w)[i := Decoding False]"
  "trace (loader_load i w) = trace w"
  by (simp_all add: loader_load_def)

lemma endDecode_fields [simp]:
  "inputData (endDecode i w) = inputData w"
  "requests (endDecode i w) = requests w"
  "runningLoader (endDecode i w) = map_option (\<lambda>l. l\<lparr>isLoading := False\<rparr>) (runningLoader w)"
  "nLoad (endDecode i w) = nLoad w"
  "nLoadend (endDecode i w) = nLoadend w"
  "aborting (endDecode i w) = aborting w"
  "lastRunRequestIndex (endDecode i w) = lastRunRequestIndex w"
  "manifest (endDecode i w) = manifest w"
  "trace (endDecode i w) = trace w"
  by (simp_all add: endDecode_def)

lemma addLoadItem_fields [simp]:
  "inputData (addLoadItem i w) = inputData w"
  "requests (addLoadItem i w) = requests w"
  "runningLoader (addLoadItem i w) = runningLoader w"
  "nLoad (addLoadItem i w) = nLoad w + 1"
  "nLoadend (addLoadItem i w) = nLoadend w"
  "aborting (addLoadItem i w) = aborting w"
  "lastRunRequestIndex (addLoadItem i w) = lastRunRequestIndex w"
  "manifest (addLoadItem i w) = manifest w"
  "decodes (addLoadItem i w) = decodes w"
  by (simp_all add: addLoadItem_def)

lemma getLoadHandler_fields [simp]:
  "inputData (snd (getLoadHandler b u i st txt ru w)) = inputData w"
  "requests (snd (getLoadHandler b u i st txt ru w)) = requests w"
  "nLoad (snd (getLoadHandler b u i st txt ru w)) = nLoad w"
  "aborting (snd (getLoadHandler b u i st txt ru w)) = aborting w"
  "lastRunRequestIndex (snd (getLoadHandler b u i st txt ru w)) = lastRunRequestIndex w"
  "manifest (snd (getLoadHandler b u i st txt ru w)) = manifest w"
  by (simp_all add: getLoadHandler_def)

lemma loader_abort_fields [simp]:
  "inputData (loader_abort w) = inputData w"
  "requests (loader_abort w) = requests w"
  "runningLoader (loader_abort w) = map_option (\<lambda>l. l\<lparr>isLoading := False\<rparr>) (runningLoader w)"
  "nLoad (loader_abort w) = nLoad w"
  "nLoadend (loader_abort w) = nLoadend w + 1"
  "aborting (loader_abort w) = aborting w"
  "lastRunRequestIndex (loader_abort w) = lastRunRequestIndex w"
  "manifest (loader_abort w) = manifest w"
  "decodes (loader_abort w) = decodes w"
  by (simp_all add: loader_abort_def)

lemma abort_fields [simp]:
  "inputData (abort w) = inputData w"
  "nLoad (abort w) = nLoad w"
  "aborting (abort w) = True"
  "manifest (abort w) = manifest w"
  "decodes (abort w) = decodes w"
  by (simp_all add: abort_def Let_def split: option.splits)

lemma abort_runningLoader:
  "runningLoader (abort w) = map_option (\<lambda>l. l\<lparr>isLoading := False\<rparr>) (runningLoader w)"
  by (cases "runningLoader w") (simp_all add: abort_def Let_def)

lemma abortedRequest_not_SENT: "xstate (abortedRequest r) \<noteq> SENT"
  by (simp add: abortedRequest_def)

lemma abortedRequest_id: "xstate r \<noteq> SENT \<Longrightarrow> abortedRequest r = r"
  by (simp add: abortedRequest_def)

lemma abortRequest_id:
  "i < length (requests w) \<Longrightarrow> xstate (requests w ! i) \<noteq> SENT \<Longrightarrow> abortRequest i w = w"
  by (simp add: abortRequest_def xhr_abort_def)

lemma fold_abortRequest_id:
  "\<forall>i\<in>set is. i < length (requests w) \<and> xstate (requests w ! i) \<noteq> SENT \<Longrightarrow>
   fold abortRequest is w = w"
  by (induction "is") (simp_all add: abortRequest_id)

lemma abort_quiet:
  assumes "aborting w" and "\<forall>r\<in>set (requests w). xstate r \<noteq> SENT"
    and "\<forall>l. runningLoader w = Some l \<longrightarrow> \<not> isLoading l"
  shows "abort w = w"
proof -
  from assms(1) have w: "w\<lparr>aborting := True\<rparr> = w" by simp
  have "fold abortRequest [0..<length (requests w)] w = w"
    using assms(2) by (intro fold_abortRequest_id) simp
  then show ?thesis
    using assms(3) by (simp add: abort_def w split: option.splits)
qed

lemma abort_idem: "abort (abort w) = abort w"
proof (rule abort_quiet)
  show "aborting (abort w)" by simp
  show "\<forall>r\<in>set (requests (abort w)). xstate r \<noteq> SENT"
    by (auto simp: abort_requests abortedRequest_not_SENT)
  show "\<forall>l. runningLoader (abort w) = Some l \<longrightarrow> \<not> isLoading l"
    by (auto simp: abort_runningLoader)
qed

lemma quiet_manifest: "quiet w \<Longrightarrow> manifest w = None"
  unfolding quiet_def by blast

section \<open>Abort\<close>

lemma stays_unsent_refl: "stays_unsent w w"
  by (simp add: stays_unsent_def)

lemma stays_unsent_trans:
  assumes ab: "stays_unsent a b" and bc: "stays_unsent b c"
  shows "stays_unsent a c"
  unfolding stays_unsent_def
proof (intro conjI allI impI)
  show "length (requests c) = length (requests a)"
    using ab bc by (simp add: stays_unsent_def)
next
  fix i assume i: "i < length (requests a)" and o: "xstate (requests a ! i) = OPENED"
  from ab i o have "xstate (requests b ! i) = OPENED" by (simp add: stays_unsent_def)
  moreover from ab i have "i < length (requests b)" by (simp add: stays_unsent_def)
  ultimately show "xstate (requests c ! i) = OPENED" using bc by (simp add: stays_unsent_def)
next
  fix i assume i: "i < length (requests a)" and o: "xstate (requests c ! i) = SENT"
  from ab i have ib: "i < length (requests b)" by (simp add: stays_unsent_def)
  with bc o have "xstate (requests b ! i) = SENT" by (simp add: stays_unsent_def)
  with ab i show "xstate (requests a ! i) = SENT" by (simp add: stays_unsent_def)
qed

lemma abort_stays_unsent: "stays_unsent w (abort w)"
  by (simp add: stays_unsent_def abort_requests abortedRequest_def)

lemma stays_unsent_same: "requests w' = requests w \<Longrightarrow> stays_unsent w w'"
  by (simp add: stays_unsent_def)

lemma stays_unsent_update:
  "i < length (requests w) \<Longrightarrow> xstate (requests w ! i) \<noteq> OPENED \<Longrightarrow> st \<noteq> SENT \<Longrightarrow>
   requests w' = (requests w)[i := (requests w ! i)\<lparr>xstate := st\<rparr>] \<Longrightarrow> stays_unsent w w'"
  by (simp add: stays_unsent_def nth_list_update)

lemma step_aborting_flag:
  assumes "aborting w" and "manifest w = None"
  shows "aborting (step ls e w) \<and> manifest (step ls e w) = None"
proof (cases e)
  case (LoaderLoad i)
  then show ?thesis using assms by (cases "runningLoader w") (simp_all add: Let_def)
next
  case (DirLoad st tx ru fl)
  then show ?thesis using assms by (simp add: dirOnLoad_def)
qed (use assms in simp_all)

lemma step_requests_ReqLoad:
  "requests (step ls (ReqLoad i st tx ru) w) = (requests w)[i := (requests w ! i)\<lparr>xstate := ENDING\<rparr>]"
  by simp

lemma step_requests_ReqError:
  "requests (step ls (ReqError i) w) = (requests w)[i := (requests w ! i)\<lparr>xstate := ENDING\<rparr>]"
  by simp

lemma step_requests_ReqLoadEnd_aborting:
  "aborting w \<Longrightarrow>
   requests (step ls (ReqLoadEnd i) w) = (requests w)[i := (requests w ! i)\<lparr>xstate := DONE\<rparr>]"
  by (simp add: requestOnLoadEnd_aborting)

lemma step_aborting_unsent:
  assumes "aborting w" and "manifest w = None" and "enabled e w"
  shows "stays_unsent w (step ls e w)"
proof (cases e)
  case (ReqLoad i st tx ru)
  from assms(3) ReqLoad have i: "i < length (requests w)" "xstate (requests w ! i) = SENT"
    by simp_all
  from i(2) have "xstate (requests w ! i) \<noteq> OPENED" by simp
  from stays_unsent_update [OF i(1) this _ step_requests_ReqLoad]
  show ?thesis unfolding ReqLoad by simp
next
  case (ReqError i)
  from assms(3) ReqError have i: "i < length (requests w)" "xstate (requests w ! i) = SENT"
    by simp_all
  from i(2) have "xstate (requests w ! i) \<noteq> OPENED" by simp
  from stays_unsent_update [OF i(1) this _ step_requests_ReqError]
  show ?thesis unfolding ReqError by simp
next
  case (ReqLoadEnd i)
  from assms(3) ReqLoadEnd have i: "i < length (requests w)" "xstate (requests w ! i) = ENDING"
    by simp_all
  from i(2) have "xstate (requests w ! i) \<noteq> OPENED" by simp
  from stays_unsent_update [OF i(1) this _ step_requests_ReqLoadEnd_aborting [OF assms(1)]]
  show ?thesis unfolding ReqLoadEnd by simp
next
  case (LoaderLoadItem i)
  then show ?thesis by (simp add: stays_unsent_same)
next
  case (LoaderLoad i)
  then show ?thesis by (cases "runningLoader w") (simp_all add: stays_unsent_same Let_def)
next
  case (LoaderError i)
  then show ?thesis by (simp add: stays_unsent_same)
next
  case (LoaderLoadEnd i)
  then show ?thesis by (simp add: stays_unsent_same)
next
  case Abort
  then show ?thesis by (simp add: abort_stays_unsent)
next
  case (DirLoad st tx ru fl)
  with assms(2,3) show ?thesis by simp
next
  case DirError
  with assms(2,3) show ?thesis by simp
next
  case DirAbort
  with assms(2,3) show ?thesis by simp
qed

lemma run_aborting:
  "aborting w \<Longrightarrow> manifest w = None \<Longrightarrow> run ls evs w = Some w' \<Longrightarrow>
   aborting w' \<and> stays_unsent w w'"
proof (induction evs arbitrary: w)
  case Nil
  then show ?case by (simp add: stays_unsent_refl)
next
  case (Cons e es)
  from Cons.prems have en: "enabled e w" and r: "run ls es (step ls e w) = Some w'"
    by (simp_all split: if_splits)
  from step_aborting_flag [OF Cons.prems(1,2), of ls e]
  have s: "aborting (step ls e w)" "manifest (step ls e w) = None" by simp_all
  have u: "stays_unsent w (step ls e w)"
    by (rule step_aborting_unsent [OF Cons.prems(1,2) en])
  from Cons.IH [OF s r] show ?case
    using u stays_unsent_trans [of w "step ls e w" w'] by simp
qed

lemma addLoadend_count_OnAbort:
  "count_list (trace (addLoadend w)) (OnAbort a) = count_list (trace w) (OnAbort a)"
  by (simp add: addLoadend_def Let_def split: option.splits)

lemma xhr_abort_count_OnAbort:
  "aborting w \<Longrightarrow>
   count_list (trace (xhr_abort i w)) (OnAbort a) =
     count_list (trace w) (OnAbort a) +
     (if xstate (requests w ! i) = SENT \<and> a = Some (xurl (requests w ! i)) then 1 else 0)"
  by (simp add: xhr_abort_def requestOnLoadEnd_aborting addLoadend_count_OnAbort)

lemma abortRequest_count_OnAbort:
  "aborting w \<Longrightarrow>
   count_list (trace (abortRequest i w)) (OnAbort a) =
     count_list (trace w) (OnAbort a) +
     (if xstate (requests w ! i) = SENT \<and> a = Some (xurl (requests w ! i)) then 1 else 0)"
  by (cases "xstate (requests w ! i)") (simp_all add: abortRequest_def xhr_abort_count_OnAbort)

lemma fold_abortRequest_nth:
  assumes "aborting w" and "n < length (requests w)"
  shows "requests (fold abortRequest [0..<n] w) ! n = requests w ! n"
proof -
  from assms have "requests (fold abortRequest [0..<n] w)
      = map abortedRequest (take n (requests w)) @ drop n (requests w)"
    by (intro fold_abortRequest_requests) simp_all
  then show ?thesis using assms(2) by (simp add: nth_append)
qed

lemma fold_abortRequest_count_OnAbort:
  "aborting w \<Longrightarrow> n \<le> length (requests w) \<Longrightarrow>
   count_list (trace (fold abortRequest [0..<n] w)) (OnAbort a) =
     count_list (trace w) (OnAbort a) +
     length (filter (\<lambda>r. xstate r = SENT \<and> a = Some (xurl r)) (take n (requests w)))"
proof (induction n)
  case 0
  then show ?case by simp
next
  case (Suc n)
  let ?w = "fold abortRequest [0..<n] w"
  from Suc.prems have n: "n < length (requests w)" by simp
  have ab: "aborting ?w" using Suc.prems by simp
  have nth: "requests ?w ! n = requests w ! n"
    by (rule fold_abortRequest_nth [OF Suc.prems(1) n])
  have IH: "count_list (trace ?w) (OnAbort a) =
     count_list (trace w) (OnAbort a) +
     length (filter (\<lambda>r. xstate r = SENT \<and> a = Some (xurl r)) (take n (requests w)))"
    using Suc by simp
  have "count_list (trace (abortRequest n ?w)) (OnAbort a) =
      count_list (trace ?w) (OnAbort a) +
      (if xstate (requests w ! n) = SENT \<and> a = Some (xurl (requests w ! n)) then 1 else 0)"
    using abortRequest_count_OnAbort [OF ab, of n a] nth by simp
  then show ?case
    using IH n by (simp add: take_Suc_conv_app_nth)
qed

lemma abort_count_OnAbort:
  "count_list (trace (abort w)) (OnAbort a) =
     count_list (trace w) (OnAbort a) +
     length (filter (\<lambda>r. xstate r = SENT \<and> a = Some (xurl r)) (requests w)) +
     (if busy w \<and> a = None then 1 else 0)"
proof -
  let ?w1 = "w\<lparr>aborting := True\<rparr>"
  let ?w2 = "fold abortRequest [0..<length (requests w)] ?w1"
  have f: "count_list (trace ?w2) (OnAbort a) =
     count_list (trace w) (OnAbort a) +
     length (filter (\<lambda>r. xstate r = SENT \<and> a = Some (xurl r)) (requests w))"
    using fold_abortRequest_count_OnAbort [of ?w1 "length (requests w)" a] by simp
  show ?thesis
  proof (cases "busy w")
    case True
    then obtain l where l: "runningLoader w = Some l" "isLoading l"
      by (auto simp: busy_def split: option.splits)
    then have "abort w = loader_abort ?w2" by (simp add: abort_def Let_def)
    then show ?thesis using f True
      by (simp add: loader_abort_def addLoadend_count_OnAbort)
  next
    case False
    then have "abort w = ?w2"
      by (auto simp: abort_def Let_def busy_def split: option.splits)
    then show ?thesis using f False by simp
  qed
qed

lemmas eval_defs =
  load_def loadUrls_def isDicomDir_def endsWith_def Let_def emit_def init_world_def
  JSONTextLoader_def JSONTextLoader_canLoadUrl_def storeInputData_def storeLoader_def
  storeRequest_def newRequest_def launchRequests_def launchOne_def initialBatchSize_def
  sendRequest_def xhr_send_def loadDicomDir_def dirOnLoad_def fullUrls_def getRootPath_def
  abort_def abortRequest_def xhr_abort_def loader_abort_def set_xstate_def
  requestOnLoadEnd_def addLoadend_def addLoad_def addLoadItem_def getLoadHandler_def
  loader_load_def endDecode_def

text \<open>
  Claim C4, at an abort during the fetch of a manifest. \<^verbatim>\<open>load(["d/DICOMDIR"])\<close> sends
  the manifest request; the owner calls \<^verbatim>\<open>abort()\<close> while it is in flight; then the
  manifest arrives with status 200 and lists \<^verbatim>\<open>a.json\<close>. The claim asks that no request
  goes from unsent to sent after the abort. In the code the abort reaches nothing:
  \<^verbatim>\<open>#loadDicomDir\<close> never stores the manifest request, so \<^verbatim>\<open>abort\<close> cancels no request
  and calls no hook (the trace holds the start event only, although lines 445-448 give the
  manifest request an \<^verbatim>\<open>onabort\<close> handler), and when the manifest arrives
  \<^verbatim>\<open>#storeInputData\<close> lowers the flag and the launch loop sends the request for
  \<^verbatim>\<open>d/a.json\<close>.
\<close>

theorem abort_lost_during_manifest_fetch:
  "map_option (\<lambda>w. (aborting w, map xurl (requests w), map xstate (requests w), trace w))
     (run [JSONTextLoader (\<lambda>u. ''json'')]
        [Abort, DirLoad 200 ''OK'' ''d/DICOMDIR'' (Some [[[''a.json'']]])]
        (snd (load DoNothing [JSONTextLoader (\<lambda>u. ''json'')]
                (Some [''d/DICOMDIR'']) None init_world)))
   = Some (False, [''d/a.json''], [SENT], [OnLoadStart (Some [''d/DICOMDIR''])])"
  by (simp add: eval_defs upt_conv_Cons)

text \<open>
  What \<^verbatim>\<open>abort\<close> does keep. It is idempotent: a second call changes neither the state
  nor the trace. It cancels every stored request in flight and leaves the others as they
  are; afterwards the decoder is not loading, and the decoder was aborted (its
  \<^verbatim>\<open>onabort\<close> hook ran) exactly when it was loading. When no manifest fetch is pending,
  then after \<^verbatim>\<open>abort\<close>, whatever events follow, the flag stays set and no stored request
  goes from unsent to sent.
\<close>

theorem abort_idempotent_no_dispatch:
  "abort (abort w) = abort w
   \<and> requests (abort w) = map abortedRequest (requests w)
   \<and> busy (abort w) = False
   \<and> count_list (trace (abort w)) (OnAbort None)
       = count_list (trace w) (OnAbort None) + (if busy w then 1 else 0)
   \<and> (manifest w = None \<longrightarrow> run ls evs (abort w) = Some w' \<longrightarrow>
        aborting w' \<and> stays_unsent w w')"
proof (intro conjI impI)
  show "abort (abort w) = abort w" by (rule abort_idem)
  show "requests (abort w) = map abortedRequest (requests w)" by (rule abort_requests)
  show "busy (abort w) = False"
    by (cases "runningLoader w") (simp_all add: busy_def abort_runningLoader)
  show "count_list (trace (abort w)) (OnAbort None)
       = count_list (trace w) (OnAbort None) + (if busy w then 1 else 0)"
    using abort_count_OnAbort [of w None] by simp
next
  assume m: "manifest w = None" and r: "run ls evs (abort w) = Some w'"
  have "aborting (abort w)" "manifest (abort w) = None" using m by simp_all
  from run_aborting [OF this r] have a: "aborting w'" and u: "stays_unsent (abort w) w'"
    by simp_all
  show "aborting w'" by (rule a)
  show "stays_unsent w w'"
    by (rule stays_unsent_trans [OF abort_stays_unsent u])
qed

theorem abort_idempotent_no_dispatch_witness:
  "manifest
     \<lparr>inputData = Some [''a.json'', ''b.json'', ''c.json''],
      requests = [\<lparr>xurl = ''a.json'', xheaders = [], xwithCredentials = False, xresponseType = Text, xstate = ENDING\<rparr>,
                  \<lparr>xurl = ''b.json'', xheaders = [], xwithCredentials = False, xresponseType = Text, xstate = SENT\<rparr>,
                  \<lparr>xurl = ''c.json'', xheaders = [], xwithCredentials = False, xresponseType = Text, xstate = OPENED\<rparr>],
      runningLoader = Some ((JSONTextLoader (\<lambda>u. ''json''))\<lparr>isLoading := True\<rparr>),
      nLoad = 0, nLoadend = 0, aborting = False, lastRunRequestIndex = 1, manifest = None,
      decodes = [Decoding False, Idle, Idle], trace = []\<rparr> = None
   \<and> map xstate (requests (the (run [JSONTextLoader (\<lambda>u. ''json'')] [ReqLoadEnd 0, Abort]
        (abort
          \<lparr>inputData = Some [''a.json'', ''b.json'', ''c.json''],
           requests = [\<lparr>xurl = ''a.json'', xheaders = [], xwithCredentials = False, xresponseType = Text, xstate = ENDING\<rparr>,
                       \<lparr>xurl = ''b.json'', xheaders = [], xwithCredentials = False, xresponseType = Text, xstate = SENT\<rparr>,
                       \<lparr>xurl = ''c.json'', xheaders = [], xwithCredentials = False, xresponseType = Text, xstate = OPENED\<rparr>],
           runningLoader = Some ((JSONTextLoader (\<lambda>u. ''json''))\<lparr>isLoading := True\<rparr>),
           nLoad = 0, nLoadend = 0, aborting = False, lastRunRequestIndex = 1, manifest = None,
           decodes = [Decoding False, Idle, Idle], trace = []\<rparr>)))) = [DONE, ABORTED, OPENED]
   \<and> stays_unsent
        \<lparr>inputData = Some [''a.json'', ''b.json'', ''c.json''],
         requests = [\<lparr>xurl = ''a.json'', xheaders = [], xwithCredentials = False, xresponseType = Text, xstate = ENDING\<rparr>,
                     \<lparr>xurl = ''b.json'', xheaders = [], xwithCredentials = False, xresponseType = Text, xstate = SENT\<rparr>,
                     \<lparr>xurl = ''c.json'', xheaders = [], xwithCredentials = False, xresponseType = Text, xstate = OPENED\<rparr>],
         runningLoader = Some ((JSONTextLoader (\<lambda>u. ''json''))\<lparr>isLoading := True\<rparr>),
         nLoad = 0, nLoadend = 0, aborting = False, lastRunRequestIndex = 1, manifest = None,
         decodes = [Decoding False, Idle, Idle], trace = []\<rparr>
        (the (run [JSONTextLoader (\<lambda>u. ''json'')] [ReqLoadEnd 0, Abort]
        (abort
          \<lparr>inputData = Some [''a.json'', ''b.json'', ''c.json''],
           requests = [\<lparr>xurl = ''a.json'', xheaders = [], xwithCredentials = False, xresponseType = Text, xstate = ENDING\<rparr>,
                       \<lparr>xurl = ''b.json'', xheaders = [], xwithCredentials = False, xresponseType = Text, xstate = SENT\<rparr>,
                       \<lparr>xurl = ''c.json'', xheaders = [], xwithCredentials = False, xresponseType = Text, xstate = OPENED\<rparr>],
           runningLoader = Some ((JSONTextLoader (\<lambda>u. ''json''))\<lparr>isLoading := True\<rparr>),
           nLoad = 0, nLoadend = 0, aborting = False, lastRunRequestIndex = 1, manifest = None,
           decodes = [Decoding False, Idle, Idle], trace = []\<rparr>)))"
proof -
  define W where "W =
     \<lparr>inputData = Some [''a.json'', ''b.json'', ''c.json''],
      requests = [\<lparr>xurl = ''a.json'', xheaders = [], xwithCredentials = False, xresponseType = Text, xstate = ENDING\<rparr>,
                  \<lparr>xurl = ''b.json'', xheaders = [], xwithCredentials = False, xresponseType = Text, xstate = SENT\<rparr>,
                  \<lparr>xurl = ''c.json'', xheaders = [], xwithCredentials = False, xresponseType = Text, xstate = OPENED\<rparr>],
      runningLoader = Some ((JSONTextLoader (\<lambda>u. ''json''))\<lparr>isLoading := True\<rparr>),
      nLoad = 0, nLoadend = 0, aborting = False, lastRunRequestIndex = 1, manifest = None,
      decodes = [Decoding False, Idle, Idle], trace = []\<rparr>"
  define ls where "ls = [JSONTextLoader (\<lambda>u. ''json'')]"
  have m: "manifest W = None" by (simp add: W_def)
  have rq: "requests (abort W) = map abortedRequest (requests W)"
    using abort_idempotent_no_dispatch [of W ls "[]" W] by simp
  have st: "map xstate (requests (abort W)) = [ENDING, ABORTED, OPENED]"
    unfolding rq by (simp add: W_def abortedRequest_def)
  have len: "length (requests (abort W)) = 3" using arg_cong [OF st, of length] by simp
  have en: "enabled (ReqLoadEnd 0) (abort W)"
    using arg_cong [OF st, of "\<lambda>xs. xs ! 0"] len by simp
  have r: "run ls [ReqLoadEnd 0, Abort] (abort W)
      = Some (abort (step ls (ReqLoadEnd 0) (abort W)))"
    using en by simp
  from abort_idempotent_no_dispatch [of W ls "[ReqLoadEnd 0, Abort]"
      "abort (step ls (ReqLoadEnd 0) (abort W))"] m r
  have u: "stays_unsent W (abort (step ls (ReqLoadEnd 0) (abort W)))" by simp
  have "requests (step ls (ReqLoadEnd 0) (abort W))
      = (requests (abort W))[0 := (requests (abort W) ! 0)\<lparr>xstate := DONE\<rparr>]"
    by (rule step_requests_ReqLoadEnd_aborting) simp
  then have "map xstate (requests (step ls (ReqLoadEnd 0) (abort W)))
      = (map xstate (requests (abort W)))[0 := DONE]"
    by (simp add: map_update)
  then have s1: "map xstate (requests (step ls (ReqLoadEnd 0) (abort W))) = [DONE, ABORTED, OPENED]"
    by (simp add: st)
  have "map xstate (requests (abort (step ls (ReqLoadEnd 0) (abort W))))
      = map (xstate \<circ> abortedRequest) (requests (step ls (ReqLoadEnd 0) (abort W)))"
    by (simp add: abort_requests)
  also have "\<dots> = map (\<lambda>s. if s = SENT then ABORTED else s)
      (map xstate (requests (step ls (ReqLoadEnd 0) (abort W))))"
    by (simp add: comp_def abortedRequest_def)
  also have "\<dots> = [DONE, ABORTED, OPENED]" unfolding s1 by simp
  finally have s2: "map xstate (requests (abort (step ls (ReqLoadEnd 0) (abort W))))
      = [DONE, ABORTED, OPENED]" .
  show ?thesis
    using m r u s2 unfolding W_def [symmetric] ls_def [symmetric] by simp
qed

section \<open>An abort before the dispatch\<close>

lemma createRequests_trace:
  "createRequests loader opts d (w\<lparr>trace := t\<rparr>) =
     (fst (createRequests loader opts d w), (snd (createRequests loader opts d w))\<lparr>trace := t\<rparr>)"
proof (induction d arbitrary: w)
  case Nil
  then show ?case by simp
next
  case (Cons x xs)
  have "storeRequest (newRequest loader opts x) (w\<lparr>trace := t\<rparr>)
      = (storeRequest (newRequest loader opts x) w)\<lparr>trace := t\<rparr>"
    by (simp add: storeRequest_def)
  then show ?case using Cons.IH by simp
qed

lemma launchOne_trace: "launchOne r (w\<lparr>trace := t\<rparr>) = (launchOne r w)\<lparr>trace := t\<rparr>"
  by (simp add: launchOne_def sendRequest_def)

lemma fold_launchOne_trace:
  "fold launchOne rs (w\<lparr>trace := t\<rparr>) = (fold launchOne rs w)\<lparr>trace := t\<rparr>"
  by (induction rs arbitrary: w) (simp_all add: launchOne_trace)

lemma launchRequests_trace:
  "launchRequests opts (w\<lparr>trace := t\<rparr>) = (launchRequests opts w)\<lparr>trace := t\<rparr>"
  by (simp add: launchRequests_def initialBatchSize_def fold_launchOne_trace)

lemma loadUrls_trace:
  "loadUrls ls data opts (w\<lparr>trace := t\<rparr>) =
     (fst (loadUrls ls data opts w), (snd (loadUrls ls data opts w))\<lparr>trace := t\<rparr>)"
proof (cases data)
  case None
  then show ?thesis by (simp add: loadUrls_def)
next
  case (Some d)
  show ?thesis
  proof (cases "d = []")
    case True
    with Some show ?thesis by (simp add: loadUrls_def)
  next
    case False
    let ?s = "\<lambda>w. (storeInputData d w)\<lparr>lastRunRequestIndex := 0, decodes := replicate (length d) Idle\<rparr>"
    have s: "?s (w\<lparr>trace := t\<rparr>) = (?s w)\<lparr>trace := t\<rparr>"
      by (simp add: storeInputData_def)
    show ?thesis
    proof (cases "find (\<lambda>l. canLoadUrl l (d ! 0) opts) ls")
      case None
      with Some False s show ?thesis by (simp add: loadUrls_def Let_def)
    next
      case (Some loader)
      have sl: "storeLoader loader ((?s w)\<lparr>trace := t\<rparr>) = (storeLoader loader (?s w))\<lparr>trace := t\<rparr>"
        by (simp add: storeLoader_def)
      obtain e w2 where c: "createRequests loader opts d (storeLoader loader (?s w)) = (e, w2)"
        by (cases "createRequests loader opts d (storeLoader loader (?s w))")
      have c': "createRequests loader opts d (storeLoader loader (?s (w\<lparr>trace := t\<rparr>)))
          = (e, w2\<lparr>trace := t\<rparr>)"
        unfolding s sl createRequests_trace c by simp
      show ?thesis
        using \<open>data = Some d\<close> False Some c c'
        by (cases e) (simp_all add: loadUrls_def Let_def launchRequests_trace)
    qed
  qed
qed

lemma loadUrls_forgets:
  assumes "d \<noteq> []" and "manifest w' = manifest w"
  shows "loadUrls ls (Some d) opts w' =
     (fst (loadUrls ls (Some d) opts w), (snd (loadUrls ls (Some d) opts w))\<lparr>trace := trace w'\<rparr>)"
proof -
  let ?s = "\<lambda>w. (storeInputData d w)\<lparr>lastRunRequestIndex := 0, decodes := replicate (length d) Idle\<rparr>"
  have "?s w' = ?s (w\<lparr>trace := trace w'\<rparr>)"
    using assms(2) by (cases w; cases w') (simp add: storeInputData_def)
  then have "loadUrls ls (Some d) opts w' = loadUrls ls (Some d) opts (w\<lparr>trace := trace w'\<rparr>)"
    using assms(1) by (simp add: loadUrls_def Let_def)
  then show ?thesis by (simp add: loadUrls_trace)
qed

lemma fold_launchOne_aborting: "aborting w \<Longrightarrow> fold launchOne rs w = w"
  by (induction rs) (simp_all add: launchOne_def)

text \<open>
  Claim C6, at a batch of two elements. First the claim's own example:
  \<^verbatim>\<open>load(["a.json", "b.json"])\<close> with an \<^verbatim>\<open>onloadstart\<close> hook that calls \<^verbatim>\<open>abort()\<close>.
  The claim asks that no request is ever sent. In the code the abort sets the flag before
  \<^verbatim>\<open>#loadUrls\<close> runs, \<^verbatim>\<open>#storeInputData\<close> lowers it again, and the launch loop, which
  tests the flag before every \<^verbatim>\<open>send\<close>, sends both requests; no hook saw the abort.
  Then an abort that does cancel: the same batch loaded without that hook, and
  \<^verbatim>\<open>abort()\<close> called while both requests are in flight. \<^verbatim>\<open>onabort\<close> is called once
  for each request, as the claim says, but each cancelled request counts once into
  \<^verbatim>\<open>#nLoadend\<close> (its \<^verbatim>\<open>onabort\<close> handler only forwards, line 375), which stops at 2 of
  4, and \<^verbatim>\<open>onloadend\<close> is not called. The state reached is quiet
  (\<open>aborted_in_flight_quiet\<close> below), so by \<open>quiet_run\<close> no later event changes the
  trace: \<^verbatim>\<open>onloadend\<close> is never called, where the claim says it still fires.
\<close>

theorem abort_lost_in_onloadstart:
  "(aborting (snd (load CallAbort [JSONTextLoader (\<lambda>u. ''json'')] (Some [''a.json'', ''b.json'']) None init_world)),
    map xstate (requests (snd (load CallAbort [JSONTextLoader (\<lambda>u. ''json'')] (Some [''a.json'', ''b.json'']) None init_world))),
    trace (snd (load CallAbort [JSONTextLoader (\<lambda>u. ''json'')] (Some [''a.json'', ''b.json'']) None init_world)))
     = (False, [SENT, SENT], [OnLoadStart (Some [''a.json'', ''b.json''])])
   \<and> map_option (\<lambda>w. (map xstate (requests w), nLoadend w, trace w))
       (run [JSONTextLoader (\<lambda>u. ''json'')] [Abort]
          (snd (load DoNothing [JSONTextLoader (\<lambda>u. ''json'')] (Some [''a.json'', ''b.json'']) None init_world)))
     = Some ([ABORTED, ABORTED], 2,
             [OnLoadStart (Some [''a.json'', ''b.json'']),
              OnAbort (Some ''a.json''), OnAbort (Some ''b.json'')])"
  by (simp add: eval_defs upt_conv_Cons)

text \<open>
  What the code does with an \<^verbatim>\<open>abort\<close> called from the \<^verbatim>\<open>onloadstart\<close> hook: it is
  undone when \<^verbatim>\<open>#loadUrls\<close> stores the batch, and \<^verbatim>\<open>load\<close> returns the same result and
  the same state as without it, up to the hooks that the abort itself called on the state
  before. The launch loop sends no request when the flag is set at that time. And
  \<^verbatim>\<open>abort\<close> calls \<^verbatim>\<open>onabort\<close> once for every request it cancels in flight, with the
  element of the request as source.
\<close>

lemma abort_before_dispatch:
  "(d \<noteq> [] \<longrightarrow> \<not> isDicomDir d \<longrightarrow>
      fst (load CallAbort ls (Some d) opts w) = fst (load DoNothing ls (Some d) opts w)
      \<and> snd (load CallAbort ls (Some d) opts w)
          = (snd (load DoNothing ls (Some d) opts w))
              \<lparr>trace := trace (abort (emit (OnLoadStart (Some d)) w))\<rparr>)
   \<and> (aborting w \<longrightarrow> launchRequests opts w = w)
   \<and> count_list (trace (abort w)) (OnAbort (Some u))
       = count_list (trace w) (OnAbort (Some u))
         + length (filter (\<lambda>r. xstate r = SENT \<and> xurl r = u) (requests w))"
proof (intro conjI impI)
  assume d: "d \<noteq> []" and nd: "\<not> isDicomDir d"
  let ?w = "emit (OnLoadStart (Some d)) w"
  have f: "loadUrls ls (Some d) opts (abort ?w) =
     (fst (loadUrls ls (Some d) opts ?w),
      (snd (loadUrls ls (Some d) opts ?w))\<lparr>trace := trace (abort ?w)\<rparr>)"
    by (rule loadUrls_forgets [OF d]) simp
  show "fst (load CallAbort ls (Some d) opts w) = fst (load DoNothing ls (Some d) opts w)"
    using nd f by (simp add: load_def Let_def)
  show "snd (load CallAbort ls (Some d) opts w)
          = (snd (load DoNothing ls (Some d) opts w))
              \<lparr>trace := trace (abort (emit (OnLoadStart (Some d)) w))\<rparr>"
    using nd f by (simp add: load_def Let_def)
next
  assume "aborting w"
  then show "launchRequests opts w = w"
    by (simp add: launchRequests_def fold_launchOne_aborting)
next
  have e: "\<And>r. (u = xurl r) = (xurl r = u)" by auto
  show "count_list (trace (abort w)) (OnAbort (Some u))
       = count_list (trace w) (OnAbort (Some u))
         + length (filter (\<lambda>r. xstate r = SENT \<and> xurl r = u) (requests w))"
    using abort_count_OnAbort [of w "Some u"] by (simp add: e)
qed

section \<open>The state after loading\<close>

lemma map_take_step:
  "n < length rs \<Longrightarrow>
   (map f (take n rs) @ drop n rs)[n := f (rs ! n)] = map f (take (Suc n) rs) @ drop (Suc n) rs"
  by (simp add: nth_append list_update_append take_Suc_conv_app_nth Cons_nth_drop_Suc [symmetric])

lemma createRequests_None:
  "createRequests loader opts d w = (None, w2) \<Longrightarrow>
   (\<forall>x\<in>set d. canLoadUrl loader x opts) \<and>
   w2 = w\<lparr>requests := requests w @ map (newRequest loader opts) d\<rparr>"
proof (induction d arbitrary: w)
  case Nil
  then show ?case by simp
next
  case (Cons x xs)
  from Cons.prems have x: "canLoadUrl loader x opts"
    and r: "createRequests loader opts xs (storeRequest (newRequest loader opts x) w) = (None, w2)"
    by (simp_all split: if_splits)
  from Cons.IH [OF r] x show ?case by (simp add: storeRequest_def)
qed

lemma fold_launchOne_Suc:
  "\<not> aborting w \<Longrightarrow> Suc n \<le> length (requests w) \<Longrightarrow>
   fold launchOne [0..<Suc n] w =
     w\<lparr>lastRunRequestIndex := n,
       requests := map xhr_send (take (Suc n) (requests w)) @ drop (Suc n) (requests w)\<rparr>"
proof (induction n)
  case 0
  then have "requests w \<noteq> []" by auto
  then obtain r rs where "requests w = r # rs" by (cases "requests w") auto
  with 0 show ?case by (simp add: launchOne_def sendRequest_def)
next
  case (Suc n)
  let ?rs = "requests w"
  let ?w = "w\<lparr>lastRunRequestIndex := n,
       requests := map xhr_send (take (Suc n) ?rs) @ drop (Suc n) ?rs\<rparr>"
  from Suc have IH: "fold launchOne [0..<Suc n] w = ?w" by simp
  from Suc.prems have n: "Suc n < length ?rs" by simp
  have nth: "(map xhr_send (take (Suc n) ?rs) @ drop (Suc n) ?rs) ! Suc n = ?rs ! Suc n"
    using n by (simp add: nth_append)
  have "fold launchOne [0..<Suc (Suc n)] w = launchOne (Suc n) ?w"
    using IH by simp
  also have "\<dots> = w\<lparr>lastRunRequestIndex := Suc n,
       requests := (map xhr_send (take (Suc n) ?rs) @ drop (Suc n) ?rs)[Suc n := xhr_send (?rs ! Suc n)]\<rparr>"
    using Suc.prems(1) nth by (simp add: launchOne_def sendRequest_def)
  also have "\<dots> = w\<lparr>lastRunRequestIndex := Suc n,
       requests := map xhr_send (take (Suc (Suc n)) ?rs) @ drop (Suc (Suc n)) ?rs\<rparr>"
    using map_take_step [OF n, of xhr_send] by simp
  finally show ?case .
qed

lemma initialBatchSize_effective:
  "requests w \<noteq> [] \<Longrightarrow>
   nat (initialBatchSize opts w) = effectiveBatch opts (length (requests w))"
  by (simp add: initialBatchSize_def effectiveBatch_def Let_def split: option.splits)

lemma effectiveBatch_le: "effectiveBatch opts n \<le> n"
  by (simp add: effectiveBatch_def nat_le_iff split: option.splits)

lemma launchRequests_closed:
  assumes "\<not> aborting w" and "requests w \<noteq> []" and "lastRunRequestIndex w = 0"
  shows "launchRequests opts w =
     w\<lparr>lastRunRequestIndex := effectiveBatch opts (length (requests w)) - 1,
       requests := map xhr_send (take (effectiveBatch opts (length (requests w))) (requests w))
                   @ drop (effectiveBatch opts (length (requests w))) (requests w)\<rparr>"
proof -
  let ?b = "effectiveBatch opts (length (requests w))"
  have l: "launchRequests opts w = fold launchOne [0..<?b] w"
    using assms(2) by (simp add: launchRequests_def initialBatchSize_effective)
  show ?thesis
  proof (cases ?b)
    case 0
    have "w\<lparr>lastRunRequestIndex := 0, requests := requests w\<rparr> = w"
      using assms(3) by (cases w) simp
    then show ?thesis using l 0 by simp
  next
    case (Suc n)
    have "Suc n \<le> length (requests w)"
      using effectiveBatch_le [of opts "length (requests w)"] Suc by simp
    from fold_launchOne_Suc [OF assms(1) this] l Suc show ?thesis by simp
  qed
qed

lemma launchRequests_fields:
  assumes "\<not> aborting w" and "requests w \<noteq> []" and "lastRunRequestIndex w = 0"
  shows "requests (launchRequests opts w) =
           map xhr_send (take (effectiveBatch opts (length (requests w))) (requests w))
           @ drop (effectiveBatch opts (length (requests w))) (requests w)"
    and "lastRunRequestIndex (launchRequests opts w) = effectiveBatch opts (length (requests w)) - 1"
    and "inputData (launchRequests opts w) = inputData w"
    and "runningLoader (launchRequests opts w) = runningLoader w"
    and "nLoad (launchRequests opts w) = nLoad w"
    and "nLoadend (launchRequests opts w) = nLoadend w"
    and "aborting (launchRequests opts w) = aborting w"
    and "manifest (launchRequests opts w) = manifest w"
    and "decodes (launchRequests opts w) = decodes w"
    and "trace (launchRequests opts w) = trace w"
  unfolding launchRequests_closed [OF assms] by simp_all

text \<open>\<^verbatim>\<open>#loadUrls\<close> sends no manifest request and ends none.\<close>

lemma launchOne_manifest: "manifest (launchOne r w) = manifest w"
  by (simp add: launchOne_def)

lemma fold_launchOne_manifest: "manifest (fold launchOne rs w) = manifest w"
  by (induction rs arbitrary: w) (simp_all add: launchOne_manifest)

lemma launchRequests_manifest: "manifest (launchRequests opts w) = manifest w"
  by (simp add: launchRequests_def fold_launchOne_manifest)

lemma createRequests_manifest:
  "manifest (snd (createRequests loader opts d w)) = manifest w"
  by (induction d arbitrary: w) (simp_all add: storeRequest_def)

lemma loadUrls_manifest: "manifest (snd (loadUrls ls data opts w)) = manifest w"
proof (cases data)
  case None
  then show ?thesis by (simp add: loadUrls_def)
next
  case (Some d)
  show ?thesis
  proof (cases "d = []")
    case True
    with Some show ?thesis by (simp add: loadUrls_def)
  next
    case False
    let ?w1 = "(storeInputData d w)\<lparr>lastRunRequestIndex := 0, decodes := replicate (length d) Idle\<rparr>"
    have m1: "manifest ?w1 = manifest w" by (simp add: storeInputData_def)
    show ?thesis
    proof (cases "find (\<lambda>l. canLoadUrl l (d ! 0) opts) ls")
      case None
      with Some False m1 show ?thesis by (simp add: loadUrls_def Let_def)
    next
      case (Some loader)
      obtain e w2 where c: "createRequests loader opts d (storeLoader loader ?w1) = (e, w2)"
        by (cases "createRequests loader opts d (storeLoader loader ?w1)")
      have "manifest w2 = manifest (storeLoader loader ?w1)"
        using createRequests_manifest [of loader opts d "storeLoader loader ?w1"] c by simp
      then have m2: "manifest w2 = manifest w" using m1 by (simp add: storeLoader_def)
      show ?thesis
        using \<open>data = Some d\<close> False Some c m2
        by (cases e) (simp_all add: loadUrls_def Let_def launchRequests_manifest)
    qed
  qed
qed

text \<open>The state that a successful \<^verbatim>\<open>#loadUrls\<close> leaves.\<close>

lemma loadUrls_returns:
  assumes "loadUrls ls (Some d) opts w = (None, w0)" and "d \<noteq> []"
  shows "\<exists>loader. find (\<lambda>l. canLoadUrl l (d ! 0) opts) ls = Some loader
          \<and> (\<forall>x\<in>set d. canLoadUrl loader x opts)
          \<and> runningLoader w0 = Some loader
          \<and> requests w0 =
               map xhr_send (take (effectiveBatch opts (length d)) (map (newRequest loader opts) d))
               @ drop (effectiveBatch opts (length d)) (map (newRequest loader opts) d)"
    and "inputData w0 = Some d" and "nLoad w0 = 0" and "nLoadend w0 = 0"
    and "aborting w0 = False" and "manifest w0 = manifest w" and "trace w0 = trace w"
    and "decodes w0 = replicate (length d) Idle"
    and "lastRunRequestIndex w0 = effectiveBatch opts (length d) - 1"
proof -
  let ?w1 = "(storeInputData d w)\<lparr>lastRunRequestIndex := 0, decodes := replicate (length d) Idle\<rparr>"
  from assms obtain loader where f: "find (\<lambda>l. canLoadUrl l (d ! 0) opts) ls = Some loader"
    by (cases "find (\<lambda>l. canLoadUrl l (d ! 0) opts) ls") (auto simp: loadUrls_def Let_def)
  obtain e w2 where c: "createRequests loader opts d (storeLoader loader ?w1) = (e, w2)"
    by (cases "createRequests loader opts d (storeLoader loader ?w1)")
  from assms f c have e: "e = None" and w0: "w0 = launchRequests opts w2"
    by (cases e; simp add: loadUrls_def Let_def)+
  from createRequests_None [OF c [unfolded e]]
  have acc: "\<forall>x\<in>set d. canLoadUrl loader x opts"
    and w2: "w2 = (storeLoader loader ?w1)\<lparr>requests := map (newRequest loader opts) d\<rparr>"
    by (simp_all add: storeLoader_def storeInputData_def)
  have p: "\<not> aborting w2" "requests w2 \<noteq> []" "lastRunRequestIndex w2 = 0"
    and len: "length (requests w2) = length d"
    and rq: "requests w2 = map (newRequest loader opts) d"
    using assms(2) by (simp_all add: w2 storeLoader_def storeInputData_def)
  note lf = launchRequests_fields [OF p, of opts, unfolded len, folded w0]
  show "\<exists>loader. find (\<lambda>l. canLoadUrl l (d ! 0) opts) ls = Some loader
          \<and> (\<forall>x\<in>set d. canLoadUrl loader x opts)
          \<and> runningLoader w0 = Some loader
          \<and> requests w0 =
               map xhr_send (take (effectiveBatch opts (length d)) (map (newRequest loader opts) d))
               @ drop (effectiveBatch opts (length d)) (map (newRequest loader opts) d)"
    using f acc lf(1,4) by (simp add: rq w2 storeLoader_def)
  show "inputData w0 = Some d" using lf(3) by (simp add: w2 storeLoader_def storeInputData_def)
  show "nLoad w0 = 0" using lf(5) by (simp add: w2 storeLoader_def storeInputData_def)
  show "nLoadend w0 = 0" using lf(6) by (simp add: w2 storeLoader_def storeInputData_def)
  show "aborting w0 = False" using lf(7) by (simp add: w2 storeLoader_def storeInputData_def)
  show "manifest w0 = manifest w" using lf(8) by (simp add: w2 storeLoader_def storeInputData_def)
  show "trace w0 = trace w" using lf(10) by (simp add: w2 storeLoader_def storeInputData_def)
  show "decodes w0 = replicate (length d) Idle"
    using lf(9) by (simp add: w2 storeLoader_def storeInputData_def)
  show "lastRunRequestIndex w0 = effectiveBatch opts (length d) - 1" by (rule lf(2))
qed


section \<open>The sliding window\<close>











lemma run_hook_fields [simp]:
  "manifest (run_hook h w) = manifest w"
  by (cases h) simp_all




section \<open>The decode counter and the load event\<close>


lemma addLoadend_isOnLoad [simp]:
  "filter isOnLoad (trace (addLoadend w)) = filter isOnLoad (trace w)"
  by (simp add: addLoadend_def Let_def split: option.splits)


lemma xhr_abort_isOnLoad [simp]:
  "filter isOnLoad (trace (xhr_abort i w)) = filter isOnLoad (trace w)"
  by (simp add: xhr_abort_def)

lemma abortRequest_isOnLoad [simp]:
  "filter isOnLoad (trace (abortRequest i w)) = filter isOnLoad (trace w)"
  by (simp add: abortRequest_def)

lemma fold_abortRequest_isOnLoad [simp]:
  "filter isOnLoad (trace (fold abortRequest is w)) = filter isOnLoad (trace w)"
  by (induction "is" arbitrary: w) simp_all

lemma abort_isOnLoad [simp]:
  "filter isOnLoad (trace (abort w)) = filter isOnLoad (trace w)"
  by (simp add: abort_def Let_def loader_abort_def split: option.splits)



















section \<open>The trace is only written\<close>

lemma pre_fields [simp]:
  "inputData (pre t w) = inputData w"
  "requests (pre t w) = requests w"
  "runningLoader (pre t w) = runningLoader w"
  "nLoad (pre t w) = nLoad w"
  "nLoadend (pre t w) = nLoadend w"
  "aborting (pre t w) = aborting w"
  "lastRunRequestIndex (pre t w) = lastRunRequestIndex w"
  "manifest (pre t w) = manifest w"
  "decodes (pre t w) = decodes w"
  "trace (pre t w) = t @ trace w"
  by (simp_all add: pre_def)





























section \<open>Expansion of a manifest\<close>



lemma load_manifest_request:
  assumes "endsWith m ''DICOMDIR'' \<or> endsWith m ''.dcmdir''"
  shows "load h ls (Some [m]) opts w
       = (None, (run_hook h (emit (OnLoadStart (Some [m])) w))
                  \<lparr>manifest := Some (\<lparr>xurl = m, xheaders = [], xwithCredentials = False,
                                       xresponseType = ArrayBuffer, xstate = SENT\<rparr>, opts)\<rparr>)"
  using assms by (simp add: load_def Let_def isDicomDir_def loadDicomDir_def xhr_send_def)




section \<open>The load-end counter after a failed fetch\<close>

lemma quiet_request:
  assumes "quiet w" and "i < length (requests w)"
  shows "xstate (requests w ! i) \<noteq> SENT \<and> xstate (requests w ! i) \<noteq> ENDING"
proof -
  from assms(2) have "requests w ! i \<in> set (requests w)" by (rule nth_mem)
  with assms(1) show ?thesis unfolding quiet_def by blast
qed

lemma quiet_decode:
  assumes "quiet w" and "i < length (decodes w)"
  shows "decodes w ! i \<noteq> Decoding b"
proof -
  from assms(2) have "decodes w ! i \<in> set (decodes w)" by (rule nth_mem)
  with assms(1) have "decodes w ! i = Idle \<or> decodes w ! i = Ended False \<or> decodes w ! i = Ended True"
    unfolding quiet_def by blast
  then show ?thesis by auto
qed

lemma quiet_enabled:
  assumes q: "quiet w" and en: "enabled e w"
  shows "e = Abort"
proof (cases e)
  case (ReqLoad i st tx ru)
  with en have "i < length (requests w)" "xstate (requests w ! i) = SENT" by simp_all
  with quiet_request [OF q, of i] show ?thesis by simp
next
  case (ReqError i)
  with en have "i < length (requests w)" "xstate (requests w ! i) = SENT" by simp_all
  with quiet_request [OF q, of i] show ?thesis by simp
next
  case (ReqLoadEnd i)
  with en have "i < length (requests w)" "xstate (requests w ! i) = ENDING" by simp_all
  with quiet_request [OF q, of i] show ?thesis by simp
next
  case (LoaderLoadItem i)
  with en have "i < length (decodes w)"
    "decodes w ! i = Decoding False \<or> decodes w ! i = Decoding True" by simp_all
  with quiet_decode [OF q, of i] show ?thesis by blast
next
  case (LoaderLoad i)
  with en have "i < length (decodes w)" "decodes w ! i = Decoding False" by simp_all
  with quiet_decode [OF q, of i] show ?thesis by blast
next
  case (LoaderError i)
  with en have "i < length (decodes w)"
    "decodes w ! i = Decoding False \<or> decodes w ! i = Decoding True" by simp_all
  with quiet_decode [OF q, of i] show ?thesis by blast
next
  case (LoaderLoadEnd i)
  with en have "i < length (decodes w)"
    "decodes w ! i = Decoding False \<or> decodes w ! i = Decoding True" by simp_all
  with quiet_decode [OF q, of i] show ?thesis by blast
next
  case Abort
  then show ?thesis .
next
  case (DirLoad st tx ru fl)
  with en quiet_manifest [OF q] show ?thesis by simp
next
  case DirError
  with en quiet_manifest [OF q] show ?thesis by simp
next
  case DirAbort
  with en quiet_manifest [OF q] show ?thesis by simp
qed

lemma quiet_abort:
  assumes q: "quiet w"
  shows "abort w = w\<lparr>aborting := True\<rparr>"
proof -
  have "\<forall>i\<in>set [0..<length (requests w)].
      i < length (requests (w\<lparr>aborting := True\<rparr>))
      \<and> xstate (requests (w\<lparr>aborting := True\<rparr>) ! i) \<noteq> SENT"
    using quiet_request [OF q] by simp
  then have f: "fold abortRequest [0..<length (requests w)] (w\<lparr>aborting := True\<rparr>)
      = w\<lparr>aborting := True\<rparr>"
    by (rule fold_abortRequest_id)
  from q have nb: "\<not> busy w" unfolding quiet_def by blast
  show ?thesis
  proof (cases "runningLoader w")
    case None
    then show ?thesis by (simp add: abort_def f)
  next
    case (Some l)
    with nb have "\<not> isLoading l" by (simp add: busy_def)
    with Some show ?thesis by (simp add: abort_def f)
  qed
qed

lemma quiet_aborting: "quiet w \<Longrightarrow> quiet (w\<lparr>aborting := True\<rparr>)"
  unfolding quiet_def busy_def by simp

lemma quiet_run:
  "quiet w \<Longrightarrow> run ls evs w = Some w' \<Longrightarrow> trace w' = trace w \<and> nLoadend w' = nLoadend w"
proof (induction evs arbitrary: w)
  case Nil
  then show ?case by simp
next
  case (Cons e es)
  from Cons.prems have en: "enabled e w" and r: "run ls es (step ls e w) = Some w'"
    by (simp_all split: if_splits)
  from quiet_enabled [OF Cons.prems(1) en] have e: "e = Abort" .
  have s: "step ls e w = w\<lparr>aborting := True\<rparr>"
    using quiet_abort [OF Cons.prems(1)] e by simp
  from Cons.IH [OF quiet_aborting [OF Cons.prems(1)] r [unfolded s]] show ?case by simp
qed

text \<open>
  Claim C1, at a batch of one element whose fetch fails. With the response
  \<^verbatim>\<open>404 Not Found\<close> the \<^verbatim>\<open>load\<close> handler raises and counts nothing, and with a failure
  of the network only \<^verbatim>\<open>onerror\<close> is called; in both runs the \<^verbatim>\<open>loadend\<close> of the
  request brings \<^verbatim>\<open>#nLoadend\<close> to 1, not to 2, and \<^verbatim>\<open>onloadend\<close> is not called. The
  state reached is quiet (\<open>failed_fetch_quiet\<close> below), so by \<open>quiet_run\<close> no later
  event changes the trace or the counter: \<^verbatim>\<open>onloadend\<close> is never called.
\<close>

theorem loadend_missing_after_failed_fetch:
  "map_option (\<lambda>w. (trace w, nLoadend w, map xstate (requests w), decodes w))
     (run [JSONTextLoader (\<lambda>u. ''json'')]
        [ReqLoad 0 404 ''Not Found'' ''a.json'', ReqLoadEnd 0]
        (snd (load DoNothing [JSONTextLoader (\<lambda>u. ''json'')] (Some [''a.json'']) None init_world)))
     = Some ([OnLoadStart (Some [''a.json''])], 1, [DONE], [Idle])
   \<and> map_option (\<lambda>w. (trace w, nLoadend w, map xstate (requests w), decodes w))
     (run [JSONTextLoader (\<lambda>u. ''json'')]
        [ReqError 0, ReqLoadEnd 0]
        (snd (load DoNothing [JSONTextLoader (\<lambda>u. ''json'')] (Some [''a.json'']) None init_world)))
     = Some ([OnLoadStart (Some [''a.json'']), OnError ''a.json'' None], 1, [DONE], [Idle])"
  by (simp add: eval_defs upt_conv_Cons)

lemma failed_fetch_quiet:
  "map_option quiet
     (run [JSONTextLoader (\<lambda>u. ''json'')]
        [ReqLoad 0 404 ''Not Found'' ''a.json'', ReqLoadEnd 0]
        (snd (load DoNothing [JSONTextLoader (\<lambda>u. ''json'')] (Some [''a.json'']) None init_world)))
     = Some True
   \<and> map_option quiet
     (run [JSONTextLoader (\<lambda>u. ''json'')]
        [ReqError 0, ReqLoadEnd 0]
        (snd (load DoNothing [JSONTextLoader (\<lambda>u. ''json'')] (Some [''a.json'']) None init_world)))
     = Some True"
  by (simp add: eval_defs upt_conv_Cons quiet_def busy_def)

lemma aborted_in_flight_quiet:
  "map_option quiet
     (run [JSONTextLoader (\<lambda>u. ''json'')] [Abort]
        (snd (load DoNothing [JSONTextLoader (\<lambda>u. ''json'')] (Some [''a.json'', ''b.json'']) None init_world)))
     = Some True"
  by (simp add: eval_defs upt_conv_Cons quiet_def busy_def)

lemma loadend_inv_frame:
  "loadend_inv c d w \<Longrightarrow> inputData w' = inputData w \<Longrightarrow> manifest w' = manifest w \<Longrightarrow>
   nLoadend w' = nLoadend w \<Longrightarrow>
   filter isOnLoadEnd (trace w') = filter isOnLoadEnd (trace w) \<Longrightarrow> loadend_inv c d w'"
  by (simp add: loadend_inv_def)

lemma loadend_inv_addLoadend:
  assumes "loadend_inv c d w"
  shows "loadend_inv c d (addLoadend w)"
proof -
  from assms have i: "inputData w = Some d" and m: "manifest w = None"
    and n: "length (filter isOnLoadEnd (trace w)) = c + (if 2 * length d \<le> nLoadend w then 1 else 0)"
    by (simp_all add: loadend_inv_def)
  have t: "trace (addLoadend w)
      = trace w @ (if nLoadend w + 1 = 2 * length d then [OnLoadEnd (Some d)] else [])"
    using i by (simp add: addLoadend_def Let_def)
  show ?thesis
    unfolding loadend_inv_def t using i m n by auto
qed

lemma addLoad_isOnLoadEnd [simp]:
  "filter isOnLoadEnd (trace (addLoad w)) = filter isOnLoadEnd (trace w)"
  by (simp add: addLoad_def Let_def split: option.splits)

lemma loadend_inv_requestOnLoadEnd:
  assumes "loadend_inv c d w"
  shows "loadend_inv c d (requestOnLoadEnd w)"
  by (rule loadend_inv_frame [OF loadend_inv_addLoadend [OF assms]]) simp_all

lemma loadend_inv_xhr_abort:
  assumes "loadend_inv c d w"
  shows "loadend_inv c d (xhr_abort i w)"
proof (cases "xstate (requests w ! i) = SENT")
  case False
  with assms show ?thesis by (simp add: xhr_abort_def)
next
  case True
  let ?w1 = "emit (OnAbort (Some (xurl (requests w ! i)))) (set_xstate i ENDING w)"
  have "loadend_inv c d ?w1" by (rule loadend_inv_frame [OF assms]) simp_all
  then have "loadend_inv c d (requestOnLoadEnd ?w1)" by (rule loadend_inv_requestOnLoadEnd)
  then have "loadend_inv c d (set_xstate i ABORTED (requestOnLoadEnd ?w1))"
    by (rule loadend_inv_frame) simp_all
  with True show ?thesis by (simp add: xhr_abort_def)
qed

lemma loadend_inv_abortRequest:
  "loadend_inv c d w \<Longrightarrow> loadend_inv c d (abortRequest i w)"
  by (simp add: abortRequest_def loadend_inv_xhr_abort)

lemma loadend_inv_fold_abortRequest:
  "loadend_inv c d w \<Longrightarrow> loadend_inv c d (fold abortRequest is w)"
  by (induction "is" arbitrary: w) (simp_all add: loadend_inv_abortRequest)

lemma loadend_inv_abort:
  assumes "loadend_inv c d w"
  shows "loadend_inv c d (abort w)"
proof -
  let ?w2 = "fold abortRequest [0..<length (requests w)] (w\<lparr>aborting := True\<rparr>)"
  have "loadend_inv c d (w\<lparr>aborting := True\<rparr>)"
    by (rule loadend_inv_frame [OF assms]) simp_all
  then have f: "loadend_inv c d ?w2" by (rule loadend_inv_fold_abortRequest)
  have "loadend_inv c d (emit (OnAbort None)
      (?w2\<lparr>runningLoader := map_option (\<lambda>l. l\<lparr>isLoading := False\<rparr>) (runningLoader ?w2)\<rparr>))"
    by (rule loadend_inv_frame [OF f]) simp_all
  then have l: "loadend_inv c d (loader_abort ?w2)"
    unfolding loader_abort_def by (rule loadend_inv_addLoadend)
  show ?thesis
    using f l by (simp add: abort_def Let_def split: option.splits)
qed

lemma loadend_inv_step:
  assumes inv: "loadend_inv c d w" and en: "enabled e w"
  shows "loadend_inv c d (step ls e w)"
proof (cases e)
  case (ReqLoad i st tx ru)
  show ?thesis unfolding ReqLoad
    by (rule loadend_inv_frame [OF inv]) (simp_all add: getLoadHandler_def)
next
  case (ReqError i)
  show ?thesis unfolding ReqError by (rule loadend_inv_frame [OF inv]) simp_all
next
  case (ReqLoadEnd i)
  have "loadend_inv c d (set_xstate i DONE w)" by (rule loadend_inv_frame [OF inv]) simp_all
  then show ?thesis unfolding ReqLoadEnd by (simp add: loadend_inv_requestOnLoadEnd)
next
  case (LoaderLoadItem i)
  show ?thesis unfolding LoaderLoadItem by (rule loadend_inv_frame [OF inv]) simp_all
next
  case (LoaderLoad i)
  show ?thesis unfolding LoaderLoad
    by (rule loadend_inv_frame [OF inv]; cases "runningLoader w"; simp add: Let_def addLoadItem_def)
next
  case (LoaderError i)
  show ?thesis unfolding LoaderError by (rule loadend_inv_frame [OF inv]) simp_all
next
  case (LoaderLoadEnd i)
  have "loadend_inv c d (endDecode i w)" by (rule loadend_inv_frame [OF inv]) simp_all
  then show ?thesis unfolding LoaderLoadEnd by (simp add: loadend_inv_addLoadend)
next
  case Abort
  with inv show ?thesis by (simp add: loadend_inv_abort)
next
  case (DirLoad st tx ru fl)
  with inv en show ?thesis by (simp add: loadend_inv_def)
next
  case DirError
  with inv en show ?thesis by (simp add: loadend_inv_def)
next
  case DirAbort
  with inv en show ?thesis by (simp add: loadend_inv_def)
qed

lemma loadend_inv_run:
  "loadend_inv c d w \<Longrightarrow> run ls evs w = Some w' \<Longrightarrow> loadend_inv c d w'"
proof (induction evs arbitrary: w)
  case Nil
  then show ?case by simp
next
  case (Cons e es)
  from Cons.prems have en: "enabled e w" and r: "run ls es (step ls e w) = Some w'"
    by (simp_all split: if_splits)
  from loadend_inv_step [OF Cons.prems(1) en] have "loadend_inv c d (step ls e w)" .
  from Cons.IH [OF this r] show ?case .
qed

text \<open>
  What does hold of the load-end event: after a non-empty batch was loaded, and whatever
  events follow, \<^verbatim>\<open>onloadend\<close> has been called once if \<^verbatim>\<open>#nLoadend\<close> has reached twice
  the batch length and not at all otherwise. It is never called twice, and whether it is
  called depends on the counter alone.
\<close>

lemma loadend_at_most_once:
  assumes "load h ls (Some d) opts w = (None, w0)" and "\<not> isDicomDir d" and "d \<noteq> []"
    and "manifest w = None" and "run ls evs w0 = Some w'"
  shows "length (filter isOnLoadEnd (trace w'))
       = length (filter isOnLoadEnd (trace w0)) + (if 2 * length d \<le> nLoadend w' then 1 else 0)"
proof -
  let ?w1 = "run_hook h (emit (OnLoadStart (Some d)) w)"
  from assms(1,2) have l: "loadUrls ls (Some d) opts ?w1 = (None, w0)"
    by (simp add: load_def Let_def)
  note r = loadUrls_returns(2-) [OF l assms(3)]
  have "loadend_inv (length (filter isOnLoadEnd (trace w0))) d w0"
    using r(1,3,5) assms(3,4) by (simp add: loadend_inv_def)
  from loadend_inv_run [OF this assms(5)] show ?thesis by (simp add: loadend_inv_def)
qed


section \<open>A batch enters with nothing pending\<close>

text \<open>
  When nothing is pending at the call of \<^verbatim>\<open>load\<close>, nothing is pending either when
  \<^verbatim>\<open>#loadUrls\<close> is entered: after the start event and its hook on the direct path, and
  when the handler of the manifest has taken the manifest request off.
\<close>

lemma quiet_emit: "quiet (emit c w) = quiet w"
  by (simp add: quiet_def busy_def emit_def)

lemma quiet_run_hook: "quiet w \<Longrightarrow> quiet (run_hook h (emit c w))"
proof (cases h)
  case DoNothing
  assume "quiet w"
  then show ?thesis using DoNothing by (simp add: quiet_emit)
next
  case CallAbort
  assume "quiet w"
  then have q: "quiet (emit c w)" by (simp add: quiet_emit)
  show ?thesis using CallAbort quiet_abort [OF q] quiet_aborting [OF q] by simp
qed

lemma step_manifest_None:
  assumes "manifest w = None"
  shows "manifest (step ls e w) = None"
proof (cases e)
  case (LoaderLoad i)
  then show ?thesis using assms by (cases "runningLoader w") (simp_all add: Let_def)
next
  case (DirLoad st tx ru fl)
  then show ?thesis using assms by (simp add: dirOnLoad_def)
qed (use assms in simp_all)

lemma run_manifest_None:
  "manifest w = None \<Longrightarrow> run ls evs w = Some w' \<Longrightarrow> manifest w' = None"
proof (induction evs arbitrary: w)
  case Nil
  then show ?case by simp
next
  case (Cons e es)
  from Cons.prems have r: "run ls es (step ls e w) = Some w'" by (simp split: if_splits)
  from Cons.IH [OF step_manifest_None [OF Cons.prems(1)] r] show ?case .
qed

lemma dirOnLoad_manifest: "manifest (snd (dirOnLoad ls st tx ru fl w)) = None"
proof (cases "manifest w")
  case None
  then show ?thesis by (simp add: dirOnLoad_def)
next
  case (Some a)
  obtain r opts where a: "a = (r, opts)" by (cases a)
  show ?thesis
    using Some a
    by (simp add: dirOnLoad_def Let_def loadUrls_manifest
        split: option.splits list.splits)
qed

text \<open>
  While the manifest request is in flight, and nothing else was pending at the call of
  \<^verbatim>\<open>load\<close>, the only events are calls of \<^verbatim>\<open>abort\<close>, which find nothing to cancel, and
  the end of the manifest request. So the state in which the handler of the manifest
  enters \<^verbatim>\<open>#loadUrls\<close>, which is the state at its response with the manifest request
  taken off, has nothing pending.
\<close>

lemma pending_enabled:
  assumes q: "quiet (w\<lparr>manifest := None\<rparr>)" and en: "enabled e w"
  shows "e = Abort \<or> manifest (step ls e w) = None"
proof (cases "enabled e (w\<lparr>manifest := None\<rparr>)")
  case True
  from quiet_enabled [OF q True] show ?thesis by simp
next
  case False
  with en show ?thesis
    by (cases e) (simp_all add: dirOnLoad_manifest split: option.splits)
qed

lemma pending_abort:
  assumes q: "quiet (w\<lparr>manifest := None\<rparr>)"
  shows "abort w = w\<lparr>aborting := True\<rparr>"
proof -
  have "\<forall>i\<in>set [0..<length (requests w)].
      i < length (requests (w\<lparr>aborting := True\<rparr>))
      \<and> xstate (requests (w\<lparr>aborting := True\<rparr>) ! i) \<noteq> SENT"
    using quiet_request [OF q] by simp
  then have f: "fold abortRequest [0..<length (requests w)] (w\<lparr>aborting := True\<rparr>)
      = w\<lparr>aborting := True\<rparr>"
    by (rule fold_abortRequest_id)
  from q have nb: "\<not> busy w" unfolding quiet_def busy_def by simp
  show ?thesis
  proof (cases "runningLoader w")
    case None
    then show ?thesis by (simp add: abort_def f)
  next
    case (Some l)
    with nb have "\<not> isLoading l" by (simp add: busy_def)
    with Some show ?thesis by (simp add: abort_def f)
  qed
qed

lemma manifest_pending_quiet:
  "quiet (w\<lparr>manifest := None\<rparr>) \<Longrightarrow> run ls evs w = Some w' \<Longrightarrow> manifest w' \<noteq> None \<Longrightarrow>
   quiet (w'\<lparr>manifest := None\<rparr>)"
proof (induction evs arbitrary: w)
  case Nil
  then show ?case by simp
next
  case (Cons e es)
  from Cons.prems(2) have en: "enabled e w" and r: "run ls es (step ls e w) = Some w'"
    by (simp_all split: if_splits)
  from pending_enabled [OF Cons.prems(1) en, of ls]
  show ?case
  proof
    assume e: "e = Abort"
    have s: "step ls e w = w\<lparr>aborting := True\<rparr>"
      using pending_abort [OF Cons.prems(1)] e by simp
    have "quiet ((w\<lparr>manifest := None\<rparr>)\<lparr>aborting := True\<rparr>)"
      by (rule quiet_aborting [OF Cons.prems(1)])
    then have q: "quiet ((step ls e w)\<lparr>manifest := None\<rparr>)"
      unfolding s by (simp add: quiet_def busy_def)
    from Cons.IH [OF q r Cons.prems(3)] show ?thesis .
  next
    assume "manifest (step ls e w) = None"
    from run_manifest_None [OF this r] Cons.prems(3) show ?thesis by simp
  qed
qed

lemma load_manifest_pending:
  assumes "quiet w" and "endsWith m ''DICOMDIR'' \<or> endsWith m ''.dcmdir''"
  shows "quiet ((snd (load h ls (Some [m]) opts w))\<lparr>manifest := None\<rparr>)"
proof -
  let ?X = "run_hook h (emit (OnLoadStart (Some [m])) w)"
  have "quiet ?X" by (rule quiet_run_hook [OF assms(1)])
  moreover have "manifest ?X = None" using quiet_manifest [OF assms(1)] by simp
  then have "\<And>r. ?X\<lparr>manifest := Some r, manifest := None\<rparr> = ?X" by (cases ?X) simp
  ultimately show ?thesis
    unfolding load_manifest_request [OF assms(2)] by simp
qed

lemma manifest_handler_enters:
  assumes "manifest w = Some (request, opts)" and "status = 200 \<or> status = 0"
  shows "step ls (DirLoad status tx ru (Some ((urls # g) # gs))) w
       = snd (loadUrls ls (Some (fullUrls (xurl request) urls)) opts (w\<lparr>manifest := None\<rparr>))"
  using assms by (auto simp: dirOnLoad_def Let_def)

end
